(* ===== verification/QiPrelude.thy ===== *)
theory QiPrelude
  imports Main "HOL-Library.Word"
begin

text \<open>
  The vocabulary every component of the development shares.

  \<^item> Go's machine integers as words: \<open>u8\<close>, \<open>u64\<close> (unsigned) and \<open>i32\<close> (read with
    \<^const>\<open>sint\<close>); \<open>bytes\<close> for a Go byte slice.
  \<^item> Go's \<open>error\<close> values: \<open>err\<close>, with \<open>errors_Is\<close> for \<open>errors.Is\<close> through the
    chain of \<open>%w\<close> wrappings. A Go function returning \<open>(T, error)\<close> is a function into
    \<open>err + 'a\<close>; a panic is the error \<open>Panic\<close>.
  \<^item> \<open>foldE\<close>: a Go \<open>for ... range\<close> loop whose body returns on the first error.
  \<^item> \<open>bindE\<close>: the \<open>if err != nil { return err }\<close> after a call; \<open>wrapE\<close>: the same with
    \<open>fmt.Errorf(... %w ...)\<close>.
  \<^item> The collections \<open>err_simps\<close> (evaluation of fallible code) and \<open>row_simps\<close> (table
    statements of the database).
\<close>

named_theorems err_simps
named_theorems row_simps

type_synonym u8 = "8 word"
type_synonym u64 = "64 word"
type_synonym i32 = "32 word"
type_synonym bytes = "8 word list"

section \<open>Errors\<close>

datatype err =
    Msg string
  | Wrap string err
  | Ext string
  | Panic string
  | ErrReorgTooDeep

fun errors_Is :: "err \<Rightarrow> err \<Rightarrow> bool" where
  "errors_Is (Wrap s e) t = (Wrap s e = t \<or> errors_Is e t)"
| "errors_Is e t = (e = t)"

text \<open>\<open>Error()\<close>: the text a wrapped error prints.\<close>

fun err_text :: "err \<Rightarrow> string" where
  "err_text (Msg s) = s"
| "err_text (Wrap s e) = s @ '': '' @ err_text e"
| "err_text (Ext s) = s"
| "err_text (Panic s) = s"
| "err_text ErrReorgTooDeep = ''reorg deeper than follower window''"

section \<open>Sequencing fallible steps\<close>

definition bindE :: "'e + 'a \<Rightarrow> ('a \<Rightarrow> 'e + 'b) \<Rightarrow> 'e + 'b" where
  "bindE r f = (case r of Inl e \<Rightarrow> Inl e | Inr x \<Rightarrow> f x)"

definition wrapE :: "string \<Rightarrow> err + 'a \<Rightarrow> err + 'a" where
  "wrapE s r = (case r of Inl e \<Rightarrow> Inl (Wrap s e) | Inr x \<Rightarrow> Inr x)"

fun foldE :: "('a \<Rightarrow> 's \<Rightarrow> 'e + 's) \<Rightarrow> 'a list \<Rightarrow> 's \<Rightarrow> 'e + 's" where
  "foldE f [] s = Inr s"
| "foldE f (x # xs) s = bindE (f x s) (foldE f xs)"

fun mapE :: "('a \<Rightarrow> 'e + 'b) \<Rightarrow> 'a list \<Rightarrow> 'e + 'b list" where
  "mapE f [] = Inr []"
| "mapE f (x # xs) = bindE (f x) (\<lambda>y. bindE (mapE f xs) (\<lambda>ys. Inr (y # ys)))"

lemma bindE_Inl [simp, err_simps]: "bindE (Inl e) f = Inl e"
  by (simp add: bindE_def)

lemma bindE_Inr [simp, err_simps]: "bindE (Inr x) f = f x"
  by (simp add: bindE_def)

lemma bindE_eq_Inr: "bindE r f = Inr y \<longleftrightarrow> (\<exists>x. r = Inr x \<and> f x = Inr y)"
  by (cases r) auto

lemma bindE_eq_Inl: "bindE r f = Inl e \<longleftrightarrow> r = Inl e \<or> (\<exists>x. r = Inr x \<and> f x = Inl e)"
  by (cases r) auto

lemma bindE_assoc: "bindE (bindE r f) g = bindE r (\<lambda>x. bindE (f x) g)"
  by (cases r) auto

lemma wrapE_Inl [simp, err_simps]: "wrapE s (Inl e) = Inl (Wrap s e)"
  by (simp add: wrapE_def)

lemma wrapE_Inr [simp, err_simps]: "wrapE s (Inr x) = Inr x"
  by (simp add: wrapE_def)

lemma wrapE_eq_Inr [simp]: "wrapE s r = Inr y \<longleftrightarrow> r = Inr y"
  by (cases r) auto

lemma wrapE_eq_Inl: "wrapE s r = Inl e \<longleftrightarrow> (\<exists>e'. r = Inl e' \<and> e = Wrap s e')"
  by (cases r) auto

lemma foldE_append: "foldE f (xs @ ys) s = bindE (foldE f xs s) (foldE f ys)"
  by (induction xs arbitrary: s) (auto simp: bindE_def split: sum.splits)

text \<open>The loop rule: what every iteration keeps, a loop that returns keeps.\<close>

lemma foldE_invariant:
  assumes "foldE f xs s = Inr s'" and "P s"
    and "\<And>x s s'. x \<in> set xs \<Longrightarrow> P s \<Longrightarrow> f x s = Inr s' \<Longrightarrow> P s'"
  shows "P s'"
  using assms
proof (induction xs arbitrary: s)
  case Nil
  then show ?case by simp
next
  case (Cons x xs)
  from Cons.prems(1) obtain s1 where s1: "f x s = Inr s1" "foldE f xs s1 = Inr s'"
    by (auto simp: bindE_eq_Inr)
  from Cons.prems(3)[OF _ Cons.prems(2) s1(1)] have "P s1" by simp
  with s1(2) show ?case
    using Cons.prems(3) by (auto intro: Cons.IH)
qed

text \<open>Two loops over the same list whose bodies simulate each other.\<close>

lemma foldE_simulation:
  assumes "foldE f xs s = Inr s'" and "R s a"
    and "\<And>x s s' a. x \<in> set xs \<Longrightarrow> R s a \<Longrightarrow> f x s = Inr s' \<Longrightarrow> \<exists>a'. g x a = Inr a' \<and> R s' a'"
  shows "\<exists>a'. foldE g xs a = Inr a' \<and> R s' a'"
  using assms
proof (induction xs arbitrary: s a)
  case Nil
  then show ?case by simp
next
  case (Cons x xs)
  from Cons.prems(1) obtain s1 where s1: "f x s = Inr s1" "foldE f xs s1 = Inr s'"
    by (auto simp: bindE_eq_Inr)
  from Cons.prems(3)[OF _ Cons.prems(2) s1(1)]
  obtain a1 where a1: "g x a = Inr a1" "R s1 a1" by auto
  from Cons.IH[OF s1(2) a1(2)] Cons.prems(3)
  obtain a' where "foldE g xs a1 = Inr a' \<and> R s' a'" by auto
  with a1(1) show ?case by auto
qed

text \<open>A loop whose every iteration returns, returns.\<close>

lemma foldE_total:
  assumes "\<And>x s. x \<in> set xs \<Longrightarrow> P s \<Longrightarrow> \<exists>s'. f x s = Inr s' \<and> P s'" "P s"
  shows "\<exists>s'. foldE f xs s = Inr s' \<and> P s'"
  using assms
proof (induction xs arbitrary: s)
  case (Cons x xs)
  from Cons.prems(1) [OF _ Cons.prems(2), of x] obtain s1 where s1: "f x s = Inr s1" "P s1" by auto
  with Cons.IH [OF _ s1(2)] Cons.prems(1) show ?case by simp
qed simp

lemma foldE_all_Inr:
  assumes "\<And>x s. x \<in> set xs \<Longrightarrow> f x s = Inr (g x s)"
  shows "foldE f xs s = Inr (fold g xs s)"
  using assms by (induction xs arbitrary: s) auto

lemma mapE_length: "mapE f xs = Inr ys \<Longrightarrow> length ys = length xs"
  by (induction xs arbitrary: ys) (auto simp: bindE_eq_Inr)

lemma mapE_Inr_nth:
  "mapE f xs = Inr ys \<longleftrightarrow> list_all2 (\<lambda>x y. f x = Inr y) xs ys"
  by (induction xs arbitrary: ys) (auto simp: bindE_eq_Inr list_all2_Cons1)

section \<open>Table statements\<close>

text \<open>
  A table is a list of rows. \<open>upd_where p f\<close> is \<open>UPDATE t SET f WHERE p\<close>; \<open>del_where p\<close>
  is \<open>DELETE FROM t WHERE p\<close>; \<open>ins_nc key r\<close> is \<open>INSERT INTO t ... ON CONFLICT (key) DO
  NOTHING\<close>. The list order stands for the table's unspecified row order: no property
  depends on it.
\<close>

definition upd_where :: "('r \<Rightarrow> bool) \<Rightarrow> ('r \<Rightarrow> 'r) \<Rightarrow> 'r list \<Rightarrow> 'r list" where
  "upd_where p f rs = map (\<lambda>r. if p r then f r else r) rs"

definition del_where :: "('r \<Rightarrow> bool) \<Rightarrow> 'r list \<Rightarrow> 'r list" where
  "del_where p rs = filter (\<lambda>r. \<not> p r) rs"

definition ins_nc :: "('r \<Rightarrow> 'k) \<Rightarrow> 'r \<Rightarrow> 'r list \<Rightarrow> 'r list" where
  "ins_nc key r rs = (if key r \<in> key ` set rs then rs else rs @ [r])"

lemma upd_where_Nil [simp]: "upd_where p f [] = []"
  by (simp add: upd_where_def)

lemma set_upd_where: "set (upd_where p f rs) = (\<lambda>r. if p r then f r else r) ` set rs"
  by (simp add: upd_where_def)

lemma set_del_where: "set (del_where p rs) = {r \<in> set rs. \<not> p r}"
  by (auto simp: del_where_def)

lemma set_ins_nc: "set (ins_nc key r rs) = (if key r \<in> key ` set rs then set rs else insert r (set rs))"
  by (auto simp: ins_nc_def)

lemma upd_where_none: "(\<And>r. r \<in> set rs \<Longrightarrow> \<not> p r) \<Longrightarrow> upd_where p f rs = rs"
  by (auto simp: upd_where_def intro: map_idI)

lemma del_where_none: "(\<And>r. r \<in> set rs \<Longrightarrow> \<not> p r) \<Longrightarrow> del_where p rs = rs"
  by (auto simp: del_where_def filter_id_conv)

lemma ins_nc_distinct: "distinct (map key rs) \<Longrightarrow> distinct (map key (ins_nc key r rs))"
  by (auto simp: ins_nc_def)

lemma map_key_upd_where:
  "(\<And>r. key (f r) = key r) \<Longrightarrow> map key (upd_where p f rs) = map key rs"
  by (auto simp: upd_where_def)

lemma distinct_map_del_where: "distinct (map key rs) \<Longrightarrow> distinct (map key (del_where p rs))"
  by (simp add: del_where_def distinct_map_filter)

lemma del_where_ins_nc:
  "p r \<Longrightarrow> del_where p (ins_nc key r rs) = del_where p rs"
  by (auto simp: ins_nc_def del_where_def)

section \<open>Maps keyed by a field of their values\<close>

text \<open>
  A Go map from a hash to the value that carries it, as the association list \<open>keyed k xs\<close>.
  The two folds are the loops that delete and insert a list of values.
\<close>

abbreviation keyed :: "('v \<Rightarrow> 'k) \<Rightarrow> 'v list \<Rightarrow> ('k \<times> 'v) list" where
  "keyed k xs \<equiv> map (\<lambda>x. (k x, x)) xs"

lemma map_of_keyed_None: "map_of (keyed k xs) h = None \<longleftrightarrow> h \<notin> k ` set xs"
  by (induction xs) auto

lemma map_of_keyed_Some: "distinct (map k xs) \<Longrightarrow> x \<in> set xs \<Longrightarrow> map_of (keyed k xs) (k x) = Some x"
  by (intro map_of_is_SomeI) (auto simp: comp_def)

lemma map_of_keyed_SomeD: "map_of (keyed k xs) h = Some x \<Longrightarrow> x \<in> set xs \<and> k x = h"
  by (induction xs) (auto split: if_splits)

lemma dom_keyed: "dom (map_of (keyed k xs)) = k ` set xs"
  by (simp add: dom_map_of_conv_image_fst image_image)

lemma fold_insert_keyed:
  "fold (\<lambda>x m. m(k x \<mapsto> x)) xs (map_of ys) = map_of (keyed k (rev xs) @ ys)"
proof (induction xs arbitrary: ys)
  case (Cons x xs)
  from Cons.IH [of "(k x, x) # ys"] show ?case by simp
qed simp

lemma map_of_keyed_tl:
  "distinct (map k (x # xs)) \<Longrightarrow> (map_of (keyed k (x # xs)))(k x := None) = map_of (keyed k xs)"
  by (auto simp: fun_eq_iff) (metis map_of_keyed_None)

lemma fold_delete_keyed:
  "distinct (map k xs) \<Longrightarrow> map k rs = map k (take (length rs) xs) \<Longrightarrow>
   fold (\<lambda>r m. m(k r := None)) rs (map_of (keyed k xs)) = map_of (keyed k (drop (length rs) xs))"
proof (induction rs arbitrary: xs)
  case (Cons r rs)
  then obtain c cs' where cs: "xs = c # cs'" "k r = k c"
    "map k rs = map k (take (length rs) cs')"
    by (cases xs) auto
  have "fold (\<lambda>r m. m(k r := None)) (r # rs) (map_of (keyed k xs)) =
    fold (\<lambda>r m. m(k r := None)) rs ((map_of (keyed k xs))(k r := None))"
    by (simp only: fold_simps)
  also have "(map_of (keyed k xs))(k r := None) = map_of (keyed k cs')"
    using Cons.prems(1) map_of_keyed_tl [of k c cs'] unfolding cs by blast
  also have "fold (\<lambda>r m. m(k r := None)) rs (map_of (keyed k cs')) =
    map_of (keyed k (drop (length rs) cs'))"
    using Cons.prems(1) cs by (intro Cons.IH) simp_all
  finally show ?case using cs by simp
qed simp

section \<open>Word arithmetic\<close>

lemma unat_add_lt: "unat (a :: u64) + unat b < 2 ^ 64 \<Longrightarrow> unat (a + b) = unat a + unat b"
  by (simp add: unat_word_ariths)

lemma unat_sub_le: "b \<le> a \<Longrightarrow> unat (a - b :: u64) = unat a - unat b"
  by (rule unat_sub)

lemma unat_u64_lt [simp]: "unat (a :: u64) < 18446744073709551616"
  using unsigned_less [of a, where ?'a = nat] by simp

lemma unat_u8_lt [simp]: "unat (a :: u8) < 256"
  using unsigned_less [of a, where ?'a = nat] by simp

lemma unat_inc: "a \<noteq> (- 1 :: u64) \<Longrightarrow> unat (a + 1) = unat a + 1"
proof -
  assume "a \<noteq> - 1"
  then have "unat a \<noteq> unat (- 1 :: u64)" by (simp add: word_unat_eq_iff)
  moreover have "unat (- 1 :: u64) = 18446744073709551615"
    by (simp add: unsigned_minus_1_eq_mask mask_eq_exp_minus_1)
  ultimately have "unat a + 1 < 18446744073709551616" using unat_u64_lt [of a] by linarith
  then show ?thesis using unat_add_lt [of a 1] by simp
qed

text \<open>A sum over a list splits along any condition.\<close>

lemma sum_list_filter_compl:
  "(\<Sum>x \<leftarrow> filter P xs. f x) + (\<Sum>x \<leftarrow> filter (\<lambda>x. \<not> P x) xs. f x) = (\<Sum>x \<leftarrow> xs. (f x :: int))"
  by (induction xs) auto

text \<open>
  A \<open>uint64\<close> as the argument of a statement: the driver refuses what no \<open>BIGINT\<close> can hold before it
  sends anything.
\<close>

definition bigint_fits :: "u64 \<Rightarrow> bool" where
  "bigint_fits v \<longleftrightarrow> unat v < 2 ^ 63"

definition BigintRange :: err where
  "BigintRange = Ext ''is greater than maximum value for int8''"

definition bigint_args :: "u64 list \<Rightarrow> err + unit" where
  "bigint_args vs = (if list_all bigint_fits vs then Inr () else Inl BigintRange)"

lemma bigint_args_simps [simp]:
  "bigint_args [] = Inr ()"
  "bigint_args vs = Inr u \<longleftrightarrow> list_all bigint_fits vs"
  "bigint_args vs = Inl e \<longleftrightarrow> \<not> list_all bigint_fits vs \<and> e = BigintRange"
  by (auto simp: bigint_args_def)

end
