(* ===== verification/GoStd.thy ===== *)
theory GoStd
  imports QiPrelude
begin

text \<open>
  What the code uses of Go's standard library on strings and numbers: \<open>strings.TrimPrefix\<close>,
  \<open>encoding/hex\<close> (\<open>hex_DecodeString\<close>, \<open>hex_EncodeToString\<close>), \<open>strconv\<close> (\<open>ParseUint\<close>,
  \<open>ParseInt\<close>, \<open>FormatUint\<close>, \<open>FormatInt\<close>) and the text forms of \<open>big.Int\<close> (\<open>int_Text\<close>,
  \<open>int_SetString\<close>). A Go string is a list of bytes, here a list of characters. The lemmas
  are the round trips between the printers and the parsers, in both directions where both
  hold. A parser of \<open>strconv\<close> returns a value beside its error, which some callers use
  although they ignore the error, so the model returns the pair.
\<close>

section \<open>Prefixes\<close>

definition TrimPrefix :: "string \<Rightarrow> string \<Rightarrow> string" where
  "TrimPrefix s p = (if take (length p) s = p then drop (length p) s else s)"

lemma TrimPrefix_append [simp]: "TrimPrefix (p @ s) p = s"
  by (simp add: TrimPrefix_def)

abbreviation trim0x :: "string \<Rightarrow> string" where
  "trim0x s \<equiv> TrimPrefix s ''0x''"

lemma trim0x_0x [simp]: "trim0x (CHR ''0'' # CHR ''x'' # s) = s"
  by (simp add: TrimPrefix_def)

section \<open>Digits\<close>

definition digit_val :: "char \<Rightarrow> nat option" where
  "digit_val c = (let n = of_char c :: nat in
     if 48 \<le> n \<and> n \<le> 57 then Some (n - 48)
     else if 97 \<le> n \<and> n \<le> 122 then Some (n - 87)
     else if 65 \<le> n \<and> n \<le> 90 then Some (n - 55)
     else None)"

definition digit_char :: "nat \<Rightarrow> char" where
  "digit_char n = (if n < 10 then char_of (48 + n) else char_of (87 + n))"

lemma of_char_digit_char: "n < 36 \<Longrightarrow> of_char (digit_char n) = (if n < 10 then 48 + n else 87 + n)"
  by (auto simp: digit_char_def)

lemma digit_val_char [simp]: "n < 36 \<Longrightarrow> digit_val (digit_char n) = Some n"
  by (auto simp: digit_val_def of_char_digit_char Let_def)

lemma digit_val_bound: "digit_val c = Some n \<Longrightarrow> n < 36"
  by (auto simp: digit_val_def Let_def split: if_splits)

section \<open>encoding/hex\<close>

definition hex_val :: "char \<Rightarrow> nat option" where
  "hex_val c = (case digit_val c of Some n \<Rightarrow> if n < 16 then Some n else None | None \<Rightarrow> None)"

fun hex_DecodeString :: "string \<Rightarrow> err + bytes" where
  "hex_DecodeString [] = Inr []"
| "hex_DecodeString [a] =
     (case hex_val a of
        None \<Rightarrow> Inl (Ext ''encoding/hex: invalid byte'')
      | Some _ \<Rightarrow> Inl (Ext ''encoding/hex: odd length hex string''))"
| "hex_DecodeString (a # b # s) =
     (case hex_val a of
        None \<Rightarrow> Inl (Ext ''encoding/hex: invalid byte'')
      | Some x \<Rightarrow>
          (case hex_val b of
             None \<Rightarrow> Inl (Ext ''encoding/hex: invalid byte'')
           | Some y \<Rightarrow> bindE (hex_DecodeString s) (\<lambda>r. Inr (word_of_nat (16 * x + y) # r))))"

fun hex_EncodeToString :: "bytes \<Rightarrow> string" where
  "hex_EncodeToString [] = []"
| "hex_EncodeToString (b # bs) =
     digit_char (unat b div 16) # digit_char (unat b mod 16) # hex_EncodeToString bs"

lemma hex_val_bound: "hex_val c = Some n \<Longrightarrow> n < 16"
  by (auto simp: hex_val_def split: option.splits if_splits)

lemma hex_val_digit_char [simp]: "n < 16 \<Longrightarrow> hex_val (digit_char n) = Some n"
  by (simp add: hex_val_def)

lemma unat_u8_div16: "unat (b :: u8) div 16 < 16"
  using unat_u8_lt [of b] by linarith

lemma hex_Decode_Encode [simp]: "hex_DecodeString (hex_EncodeToString bs) = Inr bs"
  by (induction bs) (simp_all add: unat_u8_div16)

lemma length_hex_Encode [simp]: "length (hex_EncodeToString bs) = 2 * length bs"
  by (induction bs) auto

lemma hex_Decode_length: "hex_DecodeString s = Inr bs \<Longrightarrow> length s = 2 * length bs"
  by (induction s arbitrary: bs rule: hex_DecodeString.induct)
    (auto simp: bindE_eq_Inr split: option.splits)

lemma hex_Encode_inj: "hex_EncodeToString a = hex_EncodeToString b \<longleftrightarrow> a = b"
  by (metis hex_Decode_Encode Inr_inject)

text \<open>Decoding loses nothing but the case of the digits: encoding gives back the lower-case text.\<close>

definition lower_digit :: "char \<Rightarrow> char" where
  "lower_digit c = (case digit_val c of Some n \<Rightarrow> digit_char n | None \<Rightarrow> c)"

lemma lower_digit_hex: "hex_val c = Some n \<Longrightarrow> lower_digit c = digit_char n"
  by (auto simp: hex_val_def lower_digit_def split: option.splits if_splits)

lemma hex_Encode_Decode: "hex_DecodeString s = Inr bs \<Longrightarrow> hex_EncodeToString bs = map lower_digit s"
proof (induction s arbitrary: bs rule: hex_DecodeString.induct)
  case (3 a b s)
  from "3.prems" obtain x y r where
    v: "hex_val a = Some x" "hex_val b = Some y" "hex_DecodeString s = Inr r"
    and bs: "bs = word_of_nat (16 * x + y) # r"
    by (auto simp: bindE_eq_Inr split: option.splits)
  from v have "x < 16" "y < 16" by (auto dest: hex_val_bound)
  then have "unat (word_of_nat (16 * x + y) :: u8) = 16 * x + y"
    by (subst unat_of_nat) simp
  with \<open>y < 16\<close> "3.IH" [OF v] v show ?case
    by (simp add: bs lower_digit_hex)
qed (auto split: option.splits)

section \<open>strconv\<close>

definition ErrSyntax :: err where
  "ErrSyntax = Ext ''invalid syntax''"

definition ErrRange :: err where
  "ErrRange = Ext ''value out of range''"

fun parse_digits :: "nat \<Rightarrow> nat \<Rightarrow> string \<Rightarrow> nat \<Rightarrow> nat \<times> err option" where
  "parse_digits base maxVal [] n = (n, None)"
| "parse_digits base maxVal (c # s) n =
     (case digit_val c of
        None \<Rightarrow> (0, Some ErrSyntax)
      | Some d \<Rightarrow>
          if base \<le> d then (0, Some ErrSyntax)
          else if maxVal < n * base + d then (maxVal, Some ErrRange)
          else parse_digits base maxVal s (n * base + d))"

definition ParseUint :: "string \<Rightarrow> nat \<Rightarrow> nat \<Rightarrow> nat \<times> err option" where
  "ParseUint s base bits =
     (if s = [] then (0, Some ErrSyntax) else parse_digits base (2 ^ bits - 1) s 0)"

definition ParseInt :: "string \<Rightarrow> nat \<Rightarrow> nat \<Rightarrow> int \<times> err option" where
  "ParseInt s base bits =
     (if s = [] then (0, Some ErrSyntax)
      else
        let neg = (hd s = CHR ''-'');
            t = (if hd s = CHR ''+'' \<or> neg then tl s else s);
            cutoff = 2 ^ (bits - 1)
        in case ParseUint t base bits of
             (un, e) \<Rightarrow>
               if e \<noteq> None \<and> e \<noteq> Some ErrRange then (0, e)
               else if \<not> neg \<and> cutoff \<le> un then (int cutoff - 1, Some ErrRange)
               else if neg \<and> cutoff < un then (- int cutoff, Some ErrRange)
               else (if neg then - int un else int un, None))"

definition res_of :: "'a \<times> err option \<Rightarrow> err + 'a" where
  "res_of r = (case snd r of None \<Rightarrow> Inr (fst r) | Some e \<Rightarrow> Inl e)"

fun FormatUint :: "nat \<Rightarrow> nat \<Rightarrow> string" where
  "FormatUint base n =
     (if base < 2 \<or> n < base then [digit_char n]
      else FormatUint base (n div base) @ [digit_char (n mod base)])"

declare FormatUint.simps [simp del]

definition FormatInt :: "int \<Rightarrow> string" where
  "FormatInt i = (if i < 0 then CHR ''-'' # FormatUint 10 (nat (- i)) else FormatUint 10 (nat i))"

lemma FormatUint_not_Nil [simp]: "FormatUint base n \<noteq> []"
  by (subst FormatUint.simps) simp

lemma parse_digits_append:
  "parse_digits base m (s @ t) n =
     (case parse_digits base m s n of (k, None) \<Rightarrow> parse_digits base m t k | (k, Some e) \<Rightarrow> (k, Some e))"
  by (induction base m s n rule: parse_digits.induct) (auto split: option.splits)

lemma parse_digits_FormatUint:
  "2 \<le> base \<Longrightarrow> base \<le> 36 \<Longrightarrow> n \<le> m \<Longrightarrow> parse_digits base m (FormatUint base n) 0 = (n, None)"
proof (induction base n rule: FormatUint.induct)
  case (1 base n)
  show ?case
  proof (cases "n < base")
    case True
    with "1.prems" show ?thesis by (subst FormatUint.simps) simp
  next
    case False
    have "n div base \<le> m" using "1.prems"(3) div_le_dividend le_trans by blast
    with "1" False have "parse_digits base m (FormatUint base (n div base)) 0 = (n div base, None)"
      by simp
    moreover have "n mod base < base" using "1.prems"(1) by simp
    moreover from this have "\<not> base \<le> n mod base" "n mod base < 36" using "1.prems"(2) by linarith+
    ultimately show ?thesis using "1.prems" False
      by (subst FormatUint.simps) (simp add: parse_digits_append)
  qed
qed

lemma ParseUint_FormatUint:
  "2 \<le> base \<Longrightarrow> base \<le> 36 \<Longrightarrow> n < 2 ^ bits \<Longrightarrow> ParseUint (FormatUint base n) base bits = (n, None)"
  by (auto simp: ParseUint_def intro: parse_digits_FormatUint)

lemma parse_digits_le: "parse_digits base m s n = (k, None) \<Longrightarrow> n \<le> m \<Longrightarrow> k \<le> m"
  by (induction base m s n rule: parse_digits.induct) (auto split: option.splits if_splits)

lemma ParseUint_bound: "ParseUint s base bits = (k, None) \<Longrightarrow> k < 2 ^ bits"
  by (auto simp: ParseUint_def dest!: parse_digits_le split: if_splits)
    (metis Suc_pred le_imp_less_Suc zero_less_numeral zero_less_power)

lemma digit_char_not_sign: "n < 36 \<Longrightarrow> digit_char n \<noteq> CHR ''-'' \<and> digit_char n \<noteq> CHR ''+''"
  using of_char_digit_char [of n] by (auto split: if_splits)

lemma hd_FormatUint: "2 \<le> base \<Longrightarrow> \<exists>d < base. hd (FormatUint base n) = digit_char d"
proof (induction base n rule: FormatUint.induct)
  case (1 base n)
  then show ?case by (subst FormatUint.simps) (auto simp: FormatUint.simps [of base n])
qed

lemma ParseInt_FormatInt:
  assumes "- (2 ^ (bits - 1)) \<le> i" "i < 2 ^ (bits - 1)" "0 < bits"
  shows "ParseInt (FormatInt i) 10 bits = (i, None)"
proof -
  have pow: "(2::nat) ^ (bits - 1) < 2 ^ bits" using assms(3) by simp
  have nn: "hd (FormatUint 10 k) \<noteq> CHR ''-''" "hd (FormatUint 10 k) \<noteq> CHR ''+''" for k
  proof -
    obtain d where "d < 10" "hd (FormatUint 10 k) = digit_char d"
      using hd_FormatUint [of 10 k] by auto
    then show "hd (FormatUint 10 k) \<noteq> CHR ''-''" "hd (FormatUint 10 k) \<noteq> CHR ''+''"
      using digit_char_not_sign [of d] by auto
  qed
  show ?thesis
  proof (cases "i < 0")
    case True
    with assms have le: "nat (- i) \<le> 2 ^ (bits - 1)"
      by (simp add: nat_le_iff)
    from le pow have "nat (- i) < 2 ^ bits" by linarith
    then have "ParseUint (FormatUint 10 (nat (- i))) 10 bits = (nat (- i), None)"
      by (intro ParseUint_FormatUint) auto
    with True le show ?thesis by (simp add: ParseInt_def FormatInt_def Let_def)
  next
    case False
    with assms have lt: "nat i < 2 ^ (bits - 1)"
      by (simp add: nat_less_iff)
    from lt pow have "nat i < 2 ^ bits" by linarith
    then have "ParseUint (FormatUint 10 (nat i)) 10 bits = (nat i, None)"
      by (intro ParseUint_FormatUint) auto
    with False lt nn show ?thesis by (simp add: ParseInt_def FormatInt_def Let_def)
  qed
qed

section \<open>Text forms of big integers\<close>

definition int_Text :: "nat \<Rightarrow> int \<Rightarrow> string" where
  "int_Text base i =
     (if i < 0 then CHR ''-'' # FormatUint base (nat (- i)) else FormatUint base (nat i))"

fun digits_value :: "nat \<Rightarrow> string \<Rightarrow> nat \<Rightarrow> nat option" where
  "digits_value base [] n = Some n"
| "digits_value base (c # s) n =
     (case digit_val c of
        None \<Rightarrow> None
      | Some d \<Rightarrow> if base \<le> d then None else digits_value base s (n * base + d))"

definition int_SetString :: "nat \<Rightarrow> string \<Rightarrow> int option" where
  "int_SetString base s =
     (let neg = (s \<noteq> [] \<and> hd s = CHR ''-'');
          t = (if s \<noteq> [] \<and> (hd s = CHR ''+'' \<or> neg) then tl s else s)
      in if t = [] then None
         else map_option (\<lambda>n. if neg then - int n else int n) (digits_value base t 0))"

lemma digits_value_append:
  "digits_value base (s @ t) n = (case digits_value base s n of None \<Rightarrow> None | Some k \<Rightarrow> digits_value base t k)"
  by (induction base s n rule: digits_value.induct) (auto split: option.splits)

lemma digits_value_FormatUint:
  "2 \<le> base \<Longrightarrow> base \<le> 36 \<Longrightarrow> digits_value base (FormatUint base n) 0 = Some n"
proof (induction base n rule: FormatUint.induct)
  case (1 base n)
  show ?case
  proof (cases "n < base")
    case True
    with "1.prems" show ?thesis by (subst FormatUint.simps) simp
  next
    case False
    with "1" have "digits_value base (FormatUint base (n div base)) 0 = Some (n div base)"
      by simp
    moreover have "n mod base < base" using "1.prems"(1) by simp
    moreover from this have "\<not> base \<le> n mod base" "n mod base < 36" using "1.prems"(2) by linarith+
    ultimately show ?thesis using "1.prems" False
      by (subst FormatUint.simps) (simp add: digits_value_append)
  qed
qed

lemma int_SetString_Text [simp]:
  assumes "2 \<le> base" "base \<le> 36"
  shows "int_SetString base (int_Text base i) = Some i"
proof -
  obtain d where "d < base" "hd (FormatUint base (nat i)) = digit_char d"
    using hd_FormatUint [of base "nat i"] assms by auto
  with digit_char_not_sign [of d] assms
  have nn: "hd (FormatUint base (nat i)) \<noteq> CHR ''-''" "hd (FormatUint base (nat i)) \<noteq> CHR ''+''"
    by auto
  show ?thesis
    using assms nn by (auto simp: int_SetString_def int_Text_def digits_value_FormatUint Let_def)
qed

section \<open>No separators in numbers\<close>

lemma digit_char_not_colon: "n < 36 \<Longrightarrow> digit_char n \<noteq> CHR '':''"
  using of_char_digit_char [of n] by (auto split: if_splits)

lemma FormatUint_no_colon: "2 \<le> base \<Longrightarrow> base \<le> 36 \<Longrightarrow> CHR '':'' \<notin> set (FormatUint base n)"
proof (induction base n rule: FormatUint.induct)
  case (1 base n)
  have "n mod base < 36" using "1.prems" by (metis (no_types) less_le_trans mod_less_divisor not_numeral_le_zero gr0I)
  then show ?case using "1" by (subst FormatUint.simps) (auto dest: digit_char_not_colon)
qed

lemma hex_Encode_no_colon: "CHR '':'' \<notin> set (hex_EncodeToString bs)"
proof (induction bs)
  case (Cons b bs)
  have "unat b div 16 < 36" "unat b mod 16 < 36" using unat_u8_div16 [of b] by auto
  with Cons digit_char_not_colon show ?case by fastforce
qed simp

end
