(* ===== verification/GoJson.thy ===== *)
theory GoJson
  imports GoStd
begin

text \<open>
  What the code uses of \<open>encoding/json\<close>. A \<open>json.RawMessage\<close> is modelled by the value tree
  of its text (it is always the text of one complete value, cut out of a larger document);
  \<open>JStr\<close> and \<open>JNum\<close> keep the literal's characters, which the hex quantities read back
  through \<open>token_text\<close>. \<open>json.Unmarshal\<close> into a struct is \<open>un_struct\<close>: the members in
  their order, each handed to the field whose name it matches (ASCII case folding), \<open>null\<close>
  leaving the struct as it is, any other value a type error. \<open>un_string\<close>, \<open>un_ptr\<close> and
  \<open>un_slice\<close> are its behaviour on string, pointer and slice fields. Go goes on after the
  first error of a document and reports it at the end; every caller discards the value
  then, so the model stops at it.
\<close>

datatype json =
    JNull
  | JBool bool
  | JNum string
  | JStr string
  | JArr "json list"
  | JObj "(string \<times> json) list"

definition ErrType :: err where
  "ErrType = Ext ''json: cannot unmarshal value into Go value''"

definition lower_ascii :: "char \<Rightarrow> char" where
  "lower_ascii c = (let n = of_char c :: nat in if 65 \<le> n \<and> n \<le> 90 then char_of (n + 32) else c)"

definition key_is :: "string \<Rightarrow> string \<Rightarrow> bool" where
  "key_is name k \<longleftrightarrow> k = name \<or> map lower_ascii k = map lower_ascii name"

fun token_text :: "json \<Rightarrow> string" where
  "token_text JNull = ''null''"
| "token_text (JBool b) = (if b then ''true'' else ''false'')"
| "token_text (JNum s) = s"
| "token_text (JStr s) = CHR 0x22 # s @ [CHR 0x22]"
| "token_text (JArr js) = ''[]''"
| "token_text (JObj ms) = ''{}''"

text \<open>\<open>strings.Trim(string(b), `"`)\<close>: every leading and trailing double quote goes.\<close>

definition trim_quotes :: "string \<Rightarrow> string" where
  "trim_quotes s =
     rev (dropWhile (\<lambda>c. c = CHR 0x22) (rev (dropWhile (\<lambda>c. c = CHR 0x22) s)))"

fun un_string :: "json \<Rightarrow> string \<Rightarrow> err + string" where
  "un_string JNull old = Inr old"
| "un_string (JStr s) old = Inr s"
| "un_string _ old = Inl ErrType"

fun un_ptr :: "(json \<Rightarrow> err + 'a) \<Rightarrow> json \<Rightarrow> err + 'a option" where
  "un_ptr f JNull = Inr None"
| "un_ptr f j = bindE (f j) (\<lambda>x. Inr (Some x))"

fun un_slice :: "(json \<Rightarrow> err + 'a) \<Rightarrow> json \<Rightarrow> err + 'a list option" where
  "un_slice f JNull = Inr None"
| "un_slice f (JArr js) = bindE (mapE f js) (\<lambda>xs. Inr (Some xs))"
| "un_slice f _ = Inl ErrType"

fun un_struct :: "(string \<times> json \<Rightarrow> 's \<Rightarrow> err + 's) \<Rightarrow> json \<Rightarrow> 's \<Rightarrow> err + 's" where
  "un_struct f JNull s = Inr s"
| "un_struct f (JObj ms) s = foldE f ms s"
| "un_struct f _ s = Inl ErrType"

lemma trim_quotes_token [simp]:
  assumes "CHR 0x22 \<notin> set s"
  shows "trim_quotes (CHR 0x22 # s @ [CHR 0x22]) = s"
proof (cases s rule: rev_cases)
  case Nil
  then show ?thesis by (simp add: trim_quotes_def)
next
  case (snoc t c)
  have "dropWhile (\<lambda>c. c = CHR 0x22) (s @ [CHR 0x22]) = s @ [CHR 0x22]"
    using assms snoc by (cases t) (auto simp: dropWhile_append)
  then show ?thesis using assms snoc by (auto simp: trim_quotes_def)
qed

lemma key_is_refl [simp]: "key_is k k"
  by (simp add: key_is_def)

end
