(* ===== verification/ChainTypes.thy ===== *)
theory ChainTypes
  imports GoJson
begin

text \<open>
  \<open>internal/chain/chain.go\<close>: the block reduced to its spine fields plus the raw JSON body,
  and the update (rollback ordered tip to ancestor, apply ordered ancestor to tip).
  \<open>Raw\<close> is \<^const>\<open>None\<close> for Go's nil \<open>RawMessage\<close>. The proofs speak of a block's \<open>spine\<close>,
  the three fields that link it into the chain: two lists of blocks with equal spines are
  the same stretch of chain. \<open>linked\<close> says that a tip-first list of spines follows the
  parent hashes; \<open>honest N\<close> is what a hash chain promises of the set \<open>N\<close> of all blocks
  ever seen: hashes identify blocks and are not empty, and a child is one higher than its
  parent.
\<close>

record block =
  Height :: u64
  Hash :: string
  ParentHash :: string
  Timestamp :: u64
  ExchangeRate :: "int option"
  Raw :: "json option"

record chain_update =
  Rollback :: "block list"
  Apply :: "block list"

definition zero_block :: block where
  "zero_block = \<lparr>Height = 0, Hash = '''', ParentHash = '''', Timestamp = 0,
     ExchangeRate = None, Raw = None\<rparr>"

section \<open>Spines\<close>

type_synonym spine = "string \<times> string \<times> u64"

definition spine_of :: "block \<Rightarrow> spine" where
  "spine_of b = (Hash b, ParentHash b, Height b)"

abbreviation sp_hash :: "spine \<Rightarrow> string" where "sp_hash s \<equiv> fst s"
abbreviation sp_parent :: "spine \<Rightarrow> string" where "sp_parent s \<equiv> fst (snd s)"
abbreviation sp_height :: "spine \<Rightarrow> u64" where "sp_height s \<equiv> snd (snd s)"

lemma spine_of_sel [simp]:
  "sp_hash (spine_of b) = Hash b" "sp_parent (spine_of b) = ParentHash b"
  "sp_height (spine_of b) = Height b"
  by (simp_all add: spine_of_def)

fun linked :: "spine list \<Rightarrow> bool" where
  "linked [] = True"
| "linked [s] = True"
| "linked (s # t # ss) = (sp_parent s = sp_hash t \<and> linked (t # ss))"

definition honest :: "spine set \<Rightarrow> bool" where
  "honest N \<longleftrightarrow>
     (\<forall>s \<in> N. sp_hash s \<noteq> '''') \<and>
     (\<forall>s \<in> N. \<forall>t \<in> N. sp_hash s = sp_hash t \<longrightarrow> s = t) \<and>
     (\<forall>s \<in> N. \<forall>t \<in> N. sp_parent s = sp_hash t \<longrightarrow> unat (sp_height s) = unat (sp_height t) + 1)"

lemma honest_hash_ne: "honest N \<Longrightarrow> s \<in> N \<Longrightarrow> sp_hash s \<noteq> ''''"
  unfolding honest_def by blast

lemma honest_inj: "honest N \<Longrightarrow> s \<in> N \<Longrightarrow> t \<in> N \<Longrightarrow> sp_hash s = sp_hash t \<Longrightarrow> s = t"
  unfolding honest_def by blast

lemma honest_height:
  "honest N \<Longrightarrow> s \<in> N \<Longrightarrow> t \<in> N \<Longrightarrow> sp_parent s = sp_hash t \<Longrightarrow>
   unat (sp_height s) = unat (sp_height t) + 1"
  unfolding honest_def by blast

lemma honest_subset: "honest N \<Longrightarrow> M \<subseteq> N \<Longrightarrow> honest M"
  unfolding honest_def by blast

lemma linked_Cons:
  "linked (s # ss) \<longleftrightarrow> linked ss \<and> (ss = [] \<or> sp_parent s = sp_hash (hd ss))"
  by (cases ss) auto

lemma linked_append:
  "linked (xs @ ys) \<longleftrightarrow>
     linked xs \<and> linked ys \<and> (xs = [] \<or> ys = [] \<or> sp_parent (last xs) = sp_hash (hd ys))"
  by (induction xs) (auto simp: linked_Cons)

lemma linked_drop: "linked ss \<Longrightarrow> linked (drop n ss)"
  by (metis append_take_drop_id linked_append)

lemma linked_take: "linked ss \<Longrightarrow> linked (take n ss)"
  by (metis append_take_drop_id linked_append)

text \<open>In an honest chain the heights count down one by one, so the hashes are distinct.\<close>

lemma linked_heights:
  assumes "honest N" "set ss \<subseteq> N" "linked ss" "i < length ss"
  shows "unat (sp_height (ss ! i)) + i = unat (sp_height (hd ss))"
  using assms(2-)
proof (induction ss arbitrary: i)
  case Nil
  then show ?case by simp
next
  case (Cons s ss)
  show ?case
  proof (cases i)
    case 0
    then show ?thesis by simp
  next
    case (Suc j)
    with Cons.prems have ne: "ss \<noteq> []" and j: "j < length ss" by auto
    with Cons.prems have "sp_parent s = sp_hash (hd ss)" "linked ss"
      by (auto simp: linked_Cons)
    moreover have "s \<in> N" "hd ss \<in> N" using Cons.prems ne by auto
    ultimately have "unat (sp_height s) = unat (sp_height (hd ss)) + 1"
      using honest_height [OF assms(1)] by blast
    moreover have "unat (sp_height (ss ! j)) + j = unat (sp_height (hd ss))"
      using Cons.IH Cons.prems \<open>linked ss\<close> j by auto
    ultimately show ?thesis using Suc by simp
  qed
qed

lemma linked_distinct_heights:
  assumes "honest N" "set ss \<subseteq> N" "linked ss"
  shows "distinct (map sp_height ss)"
proof (rule distinct_conv_nth [THEN iffD2], intro allI impI)
  fix i j
  assume ij: "i < length (map sp_height ss)" "j < length (map sp_height ss)" "i \<noteq> j"
  then show "map sp_height ss ! i \<noteq> map sp_height ss ! j"
    using linked_heights [OF assms, of i] linked_heights [OF assms, of j] by auto
qed

lemma linked_distinct:
  assumes "honest N" "set ss \<subseteq> N" "linked ss"
  shows "distinct (map sp_hash ss)"
proof -
  have "distinct ss"
    using linked_distinct_heights [OF assms] by (simp add: distinct_map)
  moreover have "inj_on sp_hash (set ss)"
    using assms(1,2) by (auto intro!: inj_onI dest: honest_inj)
  ultimately show ?thesis by (simp add: distinct_map)
qed

text \<open>
  \<open>rooted\<close>: no hash and no height twice, no hash empty, and the oldest block's parent lies outside, so a walk
  along the parents ends there. A \<open>good_chain\<close> is a linked and rooted list.
\<close>

definition rooted :: "spine list \<Rightarrow> bool" where
  "rooted ss \<longleftrightarrow>
     distinct (map sp_hash ss) \<and> distinct (map sp_height ss) \<and> '''' \<notin> sp_hash ` set ss \<and>
     (ss \<noteq> [] \<longrightarrow> sp_parent (last ss) \<notin> sp_hash ` set ss)"

definition good_chain :: "spine list \<Rightarrow> bool" where
  "good_chain ss \<longleftrightarrow> linked ss \<and> rooted ss"

lemma honest_rooted:
  assumes "honest N" "set ss \<subseteq> N" "linked ss"
  shows "rooted ss"
proof -
  have "sp_parent (last ss) \<noteq> sp_hash (ss ! i)" if "i < length ss" for i
  proof
    assume eq: "sp_parent (last ss) = sp_hash (ss ! i)"
    have "ss \<noteq> []" using that by auto
    then have "last ss \<in> N" "ss ! i \<in> N" using that assms(2) by (auto intro: nth_mem)
    then have "unat (sp_height (last ss)) = unat (sp_height (ss ! i)) + 1"
      using eq by (rule honest_height [OF assms(1)])
    moreover have "last ss = ss ! (length ss - 1)"
      using \<open>ss \<noteq> []\<close> by (rule last_conv_nth)
    moreover have "length ss - 1 < length ss" using that by simp
    note linked_heights [OF assms this]
    ultimately show False using linked_heights [OF assms that] that by auto
  qed
  note no_index = this
  have "sp_parent (last ss) \<notin> sp_hash ` set ss"
  proof
    assume "sp_parent (last ss) \<in> sp_hash ` set ss"
    then obtain t where "t \<in> set ss" and t: "sp_parent (last ss) = sp_hash t" by (rule imageE)
    then obtain i where "i < length ss" "ss ! i = t" unfolding in_set_conv_nth by blast
    with no_index t show False by blast
  qed
  moreover have "'''' \<notin> sp_hash ` set ss"
    using assms(1,2) honest_hash_ne by fastforce
  ultimately show ?thesis
    using linked_distinct [OF assms] linked_distinct_heights [OF assms] by (simp add: rooted_def)
qed

lemma honest_good: "honest N \<Longrightarrow> set ss \<subseteq> N \<Longrightarrow> linked ss \<Longrightarrow> good_chain ss"
  by (simp add: good_chain_def honest_rooted)

lemma good_chain_Nil [simp]: "good_chain []"
  by (simp add: good_chain_def rooted_def)

lemma good_chain_inj:
  "good_chain cs \<Longrightarrow> s \<in> set cs \<Longrightarrow> t \<in> set cs \<Longrightarrow> sp_hash s = sp_hash t \<Longrightarrow> s = t"
  by (auto simp: good_chain_def rooted_def distinct_map dest: inj_onD)

end
