(* ===== verification/StoreSpec.thy ===== *)
theory StoreSpec
  imports ChainTypes
begin

text \<open>
  \<open>internal/store/store.go\<close>: the persistence interface the follower writes through. A Go
  interface value is the record \<open>store_ops\<close> of its three methods over a state \<open>'s\<close>; a
  method that changes the state returns the new one beside its error.

  The locale \<open>chain_store\<close> is the contract the comments of the interface promise, stated
  over \<open>canon s\<close>, the canonical chain the store holds, tip first: \<open>Tip\<close> is its head,
  \<open>RecentBlocks\<close> a prefix of it, and \<open>ApplyUpdate\<close> either fails and keeps it or replaces
  the rolled-back prefix by the applied blocks (\<open>moved\<close>), which it does only when both
  \<open>connects\<close>. \<open>reliable_store\<close> adds that a connected update is accepted. A store promises
  this for updates that \<open>fits\<close>: the rollback list consists of blocks of the chain, and the
  new chain repeats no hash.

  \<open>rollback_ok\<close> and \<open>contiguous_ok\<close> are the two loops both implementations run before they
  write; the lemmas say that they accept exactly the updates that connect.
\<close>

record 's store_ops =
  st_Tip :: "'s \<Rightarrow> err + (block \<times> bool)"
  st_RecentBlocks :: "nat \<Rightarrow> 's \<Rightarrow> err + block list"
  st_ApplyUpdate :: "chain_update \<Rightarrow> 's \<Rightarrow> err option \<times> 's"

fun rollback_ok :: "string \<Rightarrow> block list \<Rightarrow> err + string" where
  "rollback_ok cur [] = Inr cur"
| "rollback_ok cur (rb # rbs) =
     (if Hash rb \<noteq> cur
      then Inl (Msg (''rollback block '' @ Hash rb @ '' is not the current tip '' @ cur))
      else rollback_ok (ParentHash rb) rbs)"

fun contiguous_ok :: "block list \<Rightarrow> err + unit" where
  "contiguous_ok (a # b # bs) =
     (if ParentHash b \<noteq> Hash a then Inl (Msg (''apply blocks not contiguous at '' @ Hash b))
      else contiguous_ok (b # bs))"
| "contiguous_ok _ = Inr ()"

section \<open>The chain an update acts on\<close>

definition applied :: "chain_update \<Rightarrow> spine list" where
  "applied u = rev (map spine_of (Apply u))"

definition rolled :: "chain_update \<Rightarrow> spine list" where
  "rolled u = map spine_of (Rollback u)"

definition moved :: "chain_update \<Rightarrow> spine list \<Rightarrow> spine list" where
  "moved u cs = applied u @ drop (length (Rollback u)) cs"

definition tip_hash :: "spine list \<Rightarrow> string" where
  "tip_hash cs = (if cs = [] then '''' else sp_hash (hd cs))"

text \<open>The hash the applied blocks connect to after \<open>k\<close> blocks are rolled back.\<close>

definition base_hash :: "nat \<Rightarrow> spine list \<Rightarrow> string" where
  "base_hash k cs =
     (if k < length cs then sp_hash (cs ! k) else if cs = [] then '''' else sp_parent (last cs))"

definition connects :: "chain_update \<Rightarrow> spine list \<Rightarrow> bool" where
  "connects u cs \<longleftrightarrow>
     rolled u = take (length (Rollback u)) cs \<and> Apply u \<noteq> [] \<and> linked (applied u) \<and>
     (cs \<noteq> [] \<longrightarrow> ParentHash (hd (Apply u)) = base_hash (length (Rollback u)) cs)"

definition fits :: "chain_update \<Rightarrow> spine list \<Rightarrow> bool" where
  "fits u cs \<longleftrightarrow> set (rolled u) \<subseteq> set cs \<and> (linked (moved u cs) \<longrightarrow> rooted (moved u cs))"

lemma contiguous_ok_iff: "contiguous_ok bs = Inr () \<longleftrightarrow> linked (rev (map spine_of bs))"
proof (induction bs rule: contiguous_ok.induct)
  case (1 a b bs)
  then show ?case by (auto simp: linked_append)
qed auto

lemma contiguous_ok_cases: "contiguous_ok bs = Inr x \<longleftrightarrow> linked (rev (map spine_of bs))"
  using contiguous_ok_iff by simp

text \<open>The rollback walk accepts exactly the prefixes of the chain.\<close>

lemma rollback_ok_suffix:
  assumes "good_chain (ps @ cs)" "set (map spine_of rs) \<subseteq> set (ps @ cs)"
    and "rollback_ok cur rs = Inr cur'"
    and "cs \<noteq> [] \<Longrightarrow> cur = sp_hash (hd cs)" "cs = [] \<Longrightarrow> cur \<notin> sp_hash ` set ps"
  shows "map spine_of rs = take (length rs) cs \<and>
    cur' = (if length rs < length cs then sp_hash (cs ! length rs)
            else if cs = [] then cur else sp_parent (last cs))"
  using assms
proof (induction rs arbitrary: ps cs cur)
  case Nil
  then show ?case by (auto simp: hd_conv_nth)
next
  case (Cons r rs)
  from Cons.prems have r: "Hash r = cur" "rollback_ok (ParentHash r) rs = Inr cur'"
    by (auto split: if_splits)
  show ?case
  proof (cases cs)
    case Nil
    with Cons.prems r show ?thesis by force
  next
    case (Cons c cs')
    have "spine_of r = c"
      using Cons.prems(1,2,4) r Cons
      by (intro good_chain_inj [OF Cons.prems(1)]) auto
    moreover have "map spine_of rs = take (length rs) cs' \<and>
      cur' = (if length rs < length cs' then sp_hash (cs' ! length rs)
              else if cs' = [] then ParentHash r else sp_parent (last cs'))"
    proof (rule Cons.IH [where ps = "ps @ [c]"])
      show "cs' \<noteq> [] \<Longrightarrow> ParentHash r = sp_hash (hd cs')"
        using Cons.prems(1) Cons \<open>spine_of r = c\<close>
        by (auto simp: good_chain_def linked_append linked_Cons)
      have "sp_parent (last (ps @ cs)) \<notin> sp_hash ` set (ps @ cs)"
        using Cons.prems(1) Cons unfolding good_chain_def rooted_def by blast
      moreover have "sp_parent c = ParentHash r" using \<open>spine_of r = c\<close> by auto
      ultimately show "cs' = [] \<Longrightarrow> ParentHash r \<notin> sp_hash ` set (ps @ [c])"
        using Cons by simp
    qed (use Cons.prems r Cons in auto)
    ultimately show ?thesis using Cons by auto
  qed
qed

lemma rollback_ok_prefix:
  assumes "good_chain cs" "set (map spine_of rs) \<subseteq> set cs"
    and "rollback_ok (tip_hash cs) rs = Inr cur"
  shows "map spine_of rs = take (length rs) cs" "cur = base_hash (length rs) cs"
  using rollback_ok_suffix [of "[]" cs rs "tip_hash cs" cur] assms
  by (auto simp: tip_hash_def base_hash_def)

lemma rollback_ok_accepts:
  "linked cs \<Longrightarrow> map spine_of rs = take (length rs) cs \<Longrightarrow>
   rollback_ok (tip_hash cs) rs = Inr (base_hash (length rs) cs)"
proof (induction rs arbitrary: cs)
  case Nil
  then show ?case by (simp add: tip_hash_def base_hash_def hd_conv_nth)
next
  case (Cons r rs)
  then obtain c cs' where cs: "cs = c # cs'" "spine_of r = c" "map spine_of rs = take (length rs) cs'"
    by (cases cs) auto
  with Cons.prems have "linked cs'" "cs' \<noteq> [] \<Longrightarrow> ParentHash r = sp_hash (hd cs')"
    by (auto simp: linked_Cons)
  with Cons.IH [of cs'] cs show ?case
    by (cases "cs' = []") (auto simp: tip_hash_def base_hash_def)
qed

lemma connects_linked:
  assumes "good_chain cs" "connects u cs"
  shows "linked (moved u cs)"
proof -
  let ?k = "length (Rollback u)"
  have "linked (drop ?k cs)" using assms(1) by (simp add: good_chain_def linked_drop)
  moreover have "sp_parent (last (applied u)) = sp_hash (hd (drop ?k cs))" if "drop ?k cs \<noteq> []"
  proof -
    from that have "?k < length cs" by simp
    with assms(2) show ?thesis
      by (auto simp: connects_def applied_def last_rev hd_map base_hash_def hd_drop_conv_nth)
  qed
  ultimately show ?thesis
    using assms(2) by (auto simp: moved_def linked_append connects_def)
qed

lemma connects_good: "good_chain cs \<Longrightarrow> fits u cs \<Longrightarrow> connects u cs \<Longrightarrow> good_chain (moved u cs)"
  by (simp add: good_chain_def fits_def connects_linked)

lemma moved_hd: "Apply u \<noteq> [] \<Longrightarrow> hd (moved u cs) = spine_of (last (Apply u)) \<and> moved u cs \<noteq> []"
  by (simp add: moved_def applied_def hd_append hd_rev last_map)

section \<open>The contract\<close>

locale chain_store =
  fixes ops :: "'s store_ops"
    and sinv :: "'s \<Rightarrow> bool"
    and canon :: "'s \<Rightarrow> spine list"
  assumes canon_good: "sinv s \<Longrightarrow> good_chain (canon s)"
    and tip_law: "sinv s \<Longrightarrow> st_Tip ops s = Inr (b, found) \<Longrightarrow>
      found = (canon s \<noteq> []) \<and> (canon s \<noteq> [] \<longrightarrow> spine_of b = hd (canon s))"
    and recent_law: "sinv s \<Longrightarrow> 0 < n \<Longrightarrow> st_RecentBlocks ops n s = Inr bs \<Longrightarrow>
      map spine_of bs = take n (canon s)"
    and apply_done: "sinv s \<Longrightarrow> fits u (canon s) \<Longrightarrow> st_ApplyUpdate ops u s = (None, s') \<Longrightarrow>
      sinv s' \<and> canon s' = moved u (canon s) \<and> connects u (canon s)"
    and apply_failed: "sinv s \<Longrightarrow> st_ApplyUpdate ops u s = (Some e, s') \<Longrightarrow>
      sinv s' \<and> canon s' = canon s"

locale reliable_store = chain_store +
  assumes apply_accepts: "sinv s \<Longrightarrow> fits u (canon s) \<Longrightarrow> connects u (canon s) \<Longrightarrow>
      \<exists>s'. st_ApplyUpdate ops u s = (None, s')"
    and recent_total: "sinv s \<Longrightarrow> 0 < n \<Longrightarrow> \<exists>bs. st_RecentBlocks ops n s = Inr bs"

end
