(* ===== verification/Follower.thy ===== *)
theory Follower
  imports StoreSpec
begin

text \<open>
  \<open>internal/follower/follower.go\<close>: the reorg-safe view of the chain spine. The follower is
  the record of its struct: the store it writes through, \<open>maxDepth\<close>, the in-memory window
  (a map from hashes to blocks), the tip, and the updates handed to \<open>OnUpdate\<close> so far. The
  node behind the \<open>Fetcher\<close> and \<open>RangeFetcher\<close> interfaces is a parameter (\<open>fetch\<close>, \<open>rf\<close>)
  that may fail or answer anything.

  \<open>walkToKnown\<close> ends because every iteration lengthens the branch up to \<open>maxDepth\<close>.
  \<open>rollbackFrom\<close> follows the parents inside the window and \<open>CatchUp\<close> loops until a target
  height: neither ends on its own, so both are \<open>partial_function (option)\<close> and
  \<^const>\<open>None\<close> is "does not return".

  The lemmas of the locale \<open>followed_store\<close> hold for every store that meets the contract:
  the window is always a prefix of the store's canonical chain (\<open>f_inv\<close>), \<open>Ingest\<close> always
  returns, keeps that, and either moves the chain to the new head or changes nothing.
\<close>

record 's follower =
  f_store :: 's
  f_maxDepth :: nat
  f_window :: "string \<rightharpoonup> block"
  f_tip :: string
  f_tipHeight :: u64
  f_updates :: "chain_update list"

section \<open>The code\<close>

definition follower_New :: "'s store_ops \<Rightarrow> 's \<Rightarrow> nat \<Rightarrow> err + 's follower" where
  "follower_New ops st maxDepth =
     (case st_RecentBlocks ops maxDepth st of
        Inl e \<Rightarrow> Inl (Wrap ''rebuild window'' e)
      | Inr recent \<Rightarrow>
          Inr \<lparr>f_store = st, f_maxDepth = maxDepth,
               f_window = fold (\<lambda>b w. w(Hash b \<mapsto> b)) recent Map.empty,
               f_tip = (if recent = [] then '''' else Hash (hd recent)),
               f_tipHeight = (if recent = [] then 0 else Height (hd recent)),
               f_updates = []\<rparr>)"

definition follower_Tip :: "'s follower \<Rightarrow> string \<times> u64" where
  "follower_Tip f = (f_tip f, f_tipHeight f)"

function walkToKnown ::
  "(string \<Rightarrow> err + block) \<Rightarrow> (string \<rightharpoonup> block) \<Rightarrow> nat \<Rightarrow> block list \<Rightarrow> string \<Rightarrow>
   err + (block list \<times> string)" where
  "walkToKnown fetch win d branch parent =
     (if win parent \<noteq> None then Inr (branch, parent)
      else if d \<le> length branch
      then Inl (Wrap (''no common ancestor within '' @ FormatUint 10 d @ '' blocks'') ErrReorgTooDeep)
      else (case fetch parent of
              Inl e \<Rightarrow> Inl (Wrap (''fetch ancestor '' @ parent) e)
            | Inr pb \<Rightarrow> walkToKnown fetch win d (pb # branch) (ParentHash pb)))"
  by pat_completeness auto
termination
  by (relation "measure (\<lambda>(fetch, win, d, branch, parent). d - length branch)") auto

declare walkToKnown.simps [simp del]

partial_function (option) rollbackFrom ::
  "(string \<rightharpoonup> block) \<Rightarrow> string \<Rightarrow> string \<Rightarrow> block list \<Rightarrow> (err + block list) option" where
  "rollbackFrom win ancestor cur rb =
     (if cur = ancestor then Some (Inr rb)
      else (case win cur of
              None \<Rightarrow> Some (Inl (Msg (''window broken: '' @ cur @
                        '' not found walking to ancestor '' @ ancestor)))
            | Some blk \<Rightarrow> rollbackFrom win ancestor (ParentHash blk) (rb @ [blk])))"

definition prune :: "'s follower \<Rightarrow> 's follower" where
  "prune f =
     (if f_tipHeight f < word_of_nat (f_maxDepth f) then f
      else let floor = f_tipHeight f - word_of_nat (f_maxDepth f) in
        f\<lparr>f_window := (\<lambda>h. case f_window f h of
            None \<Rightarrow> None
          | Some blk \<Rightarrow> if Height blk < floor then None else Some blk)\<rparr>)"

definition plan_update ::
  "(string \<Rightarrow> err + block) \<Rightarrow> 's follower \<Rightarrow> block \<Rightarrow> (err + chain_update) option" where
  "plan_update fetch f b =
     (if f_tip f = '''' \<or> ParentHash b = f_tip f
      then Some (Inr \<lparr>Rollback = [], Apply = [b]\<rparr>)
      else (case walkToKnown fetch (f_window f) (f_maxDepth f) [b] (ParentHash b) of
              Inl e \<Rightarrow> Some (Inl e)
            | Inr (branch, ancestor) \<Rightarrow>
                (case rollbackFrom (f_window f) ancestor (f_tip f) [] of
                   None \<Rightarrow> None
                 | Some (Inl e) \<Rightarrow> Some (Inl e)
                 | Some (Inr rb) \<Rightarrow> Some (Inr \<lparr>Rollback = rb, Apply = branch\<rparr>))))"

definition Ingest ::
  "'s store_ops \<Rightarrow> (string \<Rightarrow> err + block) \<Rightarrow> block \<Rightarrow> 's follower \<Rightarrow>
   (err option \<times> 's follower) option" where
  "Ingest ops fetch b f =
     (if f_window f (Hash b) \<noteq> None then Some (None, f)
      else (case plan_update fetch f b of
              None \<Rightarrow> None
            | Some (Inl e) \<Rightarrow> Some (Some e, f)
            | Some (Inr u) \<Rightarrow>
                (case st_ApplyUpdate ops u (f_store f) of
                   (Some e, s') \<Rightarrow>
                     Some (Some (Wrap (''commit update at '' @ FormatUint 10 (unat (Height b))) e),
                           f\<lparr>f_store := s'\<rparr>)
                 | (None, s') \<Rightarrow>
                     let win1 = fold (\<lambda>rb w. w(Hash rb := None)) (Rollback u) (f_window f);
                         win2 = fold (\<lambda>ab w. w(Hash ab \<mapsto> ab)) (Apply u) win1
                     in Some (None,
                          (prune (f\<lparr>f_store := s', f_window := win2, f_tip := Hash b,
                                    f_tipHeight := Height b\<rparr>))
                          \<lparr>f_updates := f_updates f @ [u]\<rparr>))))"

fun ingest_blocks ::
  "'s store_ops \<Rightarrow> (string \<Rightarrow> err + block) \<Rightarrow> block list \<Rightarrow> 's follower \<Rightarrow>
   (err option \<times> 's follower) option" where
  "ingest_blocks ops fetch [] f = Some (None, f)"
| "ingest_blocks ops fetch (b # bs) f =
     (case Ingest ops fetch b f of
        None \<Rightarrow> None
      | Some (Some e, f') \<Rightarrow>
          Some (Some (Wrap (''catch-up ingest '' @ FormatUint 10 (unat (Height b))) e), f')
      | Some (None, f') \<Rightarrow> ingest_blocks ops fetch bs f')"

partial_function (option) CatchUp ::
  "'s store_ops \<Rightarrow> (string \<Rightarrow> err + block) \<Rightarrow> (u64 \<Rightarrow> u64 \<Rightarrow> err + block list) \<Rightarrow> u64 \<Rightarrow>
   's follower \<Rightarrow> (err option \<times> 's follower) option" where
  "CatchUp ops fetch rf target f =
     (if f_tipHeight f < target
      then let lo = f_tipHeight f + 1; hi = min (lo + 100) (target + 1) in
        (case rf lo hi of
           Inl e \<Rightarrow> Some (Some (Wrap ''catch-up fetch'' e), f)
         | Inr blocks \<Rightarrow>
             if blocks = [] then Some (None, f)
             else (case ingest_blocks ops fetch blocks f of
                     None \<Rightarrow> None
                   | Some (Some e, f') \<Rightarrow> Some (Some e, f')
                   | Some (None, f') \<Rightarrow> CatchUp ops fetch rf target f'))
      else Some (None, f))"

section \<open>The window\<close>

text \<open>The window through the spines of its blocks, and the window a list of spines makes.\<close>

definition sp_view :: "(string \<rightharpoonup> block) \<Rightarrow> string \<rightharpoonup> spine" where
  "sp_view win = (\<lambda>h. map_option spine_of (win h))"

definition holds_window :: "spine list \<Rightarrow> (string \<rightharpoonup> block) \<Rightarrow> bool" where
  "holds_window ws win \<longleftrightarrow> sp_view win = map_of (keyed sp_hash ws)"

lemma sp_view_delete: "sp_view (win(h := None)) = (sp_view win)(h := None)"
  by (auto simp: sp_view_def)

lemma sp_view_insert: "sp_view (win(Hash b \<mapsto> b)) = (sp_view win)(sp_hash (spine_of b) \<mapsto> spine_of b)"
  by (auto simp: sp_view_def)

lemma sp_view_fold_delete:
  "sp_view (fold (\<lambda>b w. w(Hash b := None)) bs win) =
   fold (\<lambda>s w. w(sp_hash s := None)) (map spine_of bs) (sp_view win)"
  by (induction bs arbitrary: win) (simp_all add: sp_view_delete)

lemma sp_view_fold_insert:
  "sp_view (fold (\<lambda>b w. w(Hash b \<mapsto> b)) bs win) =
   fold (\<lambda>s w. w(sp_hash s \<mapsto> s)) (map spine_of bs) (sp_view win)"
  by (induction bs arbitrary: win) (simp_all add: sp_view_insert)

lemma holds_window_None: "holds_window ws win \<Longrightarrow> win h = None \<longleftrightarrow> h \<notin> sp_hash ` set ws"
  unfolding holds_window_def sp_view_def map_of_keyed_None [symmetric]
  by (drule fun_cong [of _ _ h]) (metis option.map_disc_iff)

lemma holds_window_Some:
  "holds_window ws win \<Longrightarrow> distinct (map sp_hash ws) \<Longrightarrow> s \<in> set ws \<Longrightarrow>
   \<exists>b. win (sp_hash s) = Some b \<and> spine_of b = s"
  unfolding holds_window_def sp_view_def
  by (drule fun_cong [of _ _ "sp_hash s"]) (simp add: map_of_keyed_Some)

lemma holds_window_SomeD: "holds_window ws win \<Longrightarrow> win h = Some b \<Longrightarrow> spine_of b \<in> set ws \<and> Hash b = h"
proof -
  assume "holds_window ws win" "win h = Some b"
  then have "map_of (keyed sp_hash ws) h = Some (spine_of b)"
    unfolding holds_window_def sp_view_def by (metis option.simps(9))
  then show ?thesis using map_of_keyed_SomeD by fastforce
qed

text \<open>Rolling back a prefix and applying a stretch moves the window along with the chain.\<close>

lemma holds_window_moved:
  assumes "holds_window ws win" "distinct (map sp_hash ws)"
    and "map spine_of rs = take (length rs) ws"
  shows "holds_window (rev (map spine_of as) @ drop (length rs) ws)
    (fold (\<lambda>b w. w(Hash b \<mapsto> b)) as (fold (\<lambda>b w. w(Hash b := None)) rs win))"
proof -
  have "fold (\<lambda>s w. w(sp_hash s := None)) (map spine_of rs) (map_of (keyed sp_hash ws)) =
    map_of (keyed sp_hash (drop (length (map spine_of rs)) ws))"
    by (rule fold_delete_keyed [OF assms(2)]) (metis assms(3) length_map)
  then have "sp_view (fold (\<lambda>b w. w(Hash b := None)) rs win) =
    map_of (keyed sp_hash (drop (length rs) ws))"
    using assms(1) unfolding holds_window_def sp_view_fold_delete by simp
  then show ?thesis
    by (simp add: holds_window_def sp_view_fold_insert fold_insert_keyed rev_map)
qed

section \<open>The ancestor walk\<close>

text \<open>
  \<open>ancestry fetch bs\<close>: the tip-first list \<open>bs\<close> is what the node answers along the parents.
\<close>

fun ancestry :: "(string \<Rightarrow> err + block) \<Rightarrow> block list \<Rightarrow> bool" where
  "ancestry fetch (b # c # bs) = (fetch (ParentHash b) = Inr c \<and> ancestry fetch (c # bs))"
| "ancestry fetch _ = True"

lemma walkToKnown_invariant:
  assumes "walkToKnown fetch win d branch parent = Inr (branch', anc)"
    and "branch \<noteq> []" "parent = ParentHash (hd branch)" "P branch"
    and "\<And>pb br. P br \<Longrightarrow> br \<noteq> [] \<Longrightarrow> length br < d \<Longrightarrow> win (ParentHash (hd br)) = None \<Longrightarrow>
      fetch (ParentHash (hd br)) = Inr pb \<Longrightarrow> P (pb # br)"
  shows "P branch' \<and> branch' \<noteq> [] \<and> anc = ParentHash (hd branch') \<and> win anc \<noteq> None \<and>
    last branch' = last branch"
  using assms
proof (induction fetch win d branch parent rule: walkToKnown.induct)
  case (1 fetch win d branch parent)
  show ?case
  proof (cases "win parent \<noteq> None \<or> d \<le> length branch")
    case True
    with "1.prems" show ?thesis
      unfolding walkToKnown.simps [of fetch win d branch parent] by (auto split: if_splits)
  next
    case False
    with "1.prems"(1) obtain pb where pb: "fetch parent = Inr pb"
      "walkToKnown fetch win d (pb # branch) (ParentHash pb) = Inr (branch', anc)"
      unfolding walkToKnown.simps [of fetch win d branch parent] by (auto split: sum.splits)
    have "P (pb # branch)"
      using "1.prems"(2-4) False pb by (intro "1.prems"(5)) auto
    with "1.IH" [OF _ _ pb(1) pb(2)] False "1.prems"(2,5) show ?thesis by auto
  qed
qed

lemma walkToKnown_finds:
  assumes "ancestry fetch bs" "bs \<noteq> []" "length bs + length br \<le> d"
    and "win (ParentHash (last bs)) \<noteq> None"
    and "\<And>b. b \<in> set (butlast bs) \<Longrightarrow> win (ParentHash b) = None"
  shows "walkToKnown fetch win d (hd bs # br) (ParentHash (hd bs)) =
    Inr (rev bs @ br, ParentHash (last bs))"
  using assms
proof (induction bs arbitrary: br rule: ancestry.induct)
  case (1 fetch b c bs)
  then have "walkToKnown fetch win d (c # b # br) (ParentHash c) =
    Inr (rev (c # bs) @ b # br, ParentHash (last (c # bs)))"
    using "1.IH" [of "b # br"] by auto
  with "1.prems" show ?case by (simp add: walkToKnown.simps [of _ _ _ "b # br"])
qed (auto simp: walkToKnown.simps)

lemma walkToKnown_too_deep:
  assumes "ancestry fetch bs" "bs \<noteq> []" "length bs + length br = d"
    and "\<And>b. b \<in> set bs \<Longrightarrow> win (ParentHash b) = None"
  shows "\<exists>s. walkToKnown fetch win d (hd bs # br) (ParentHash (hd bs)) = Inl (Wrap s ErrReorgTooDeep)"
  using assms
proof (induction bs arbitrary: br rule: ancestry.induct)
  case (1 fetch b c bs)
  then have "\<exists>s. walkToKnown fetch win d (c # b # br) (ParentHash c) = Inl (Wrap s ErrReorgTooDeep)"
    using "1.IH" [of "b # br"] by auto
  with "1.prems" show ?case by (simp add: walkToKnown.simps [of _ _ _ "b # br"])
qed (auto simp: walkToKnown.simps)

section \<open>The rollback walk\<close>

text \<open>
  In a window that holds the prefix \<open>ws\<close> of the chain, the walk from the tip to any known
  ancestor returns, with exactly the blocks above it.
\<close>

lemma rollbackFrom_suffix:
  assumes "holds_window (ps @ ws) win" "good_chain (ps @ ws)"
    and "j < length ws" "cur = sp_hash (hd ws)"
  shows "\<exists>rb'. rollbackFrom win (sp_hash (ws ! j)) cur rb = Some (Inr (rb @ rb')) \<and>
    map spine_of rb' = take j ws"
  using assms
proof (induction j arbitrary: ps ws cur rb)
  case 0
  then show ?case by (auto simp: rollbackFrom.simps hd_conv_nth)
next
  case (Suc j)
  then obtain w ws' where ws: "ws = w # ws'" by (cases ws) auto
  have d: "distinct (map sp_hash (ps @ ws))"
    using Suc.prems(2) by (simp add: good_chain_def rooted_def)
  then have ne: "sp_hash w \<noteq> sp_hash (ws' ! j)"
    using Suc.prems(3) ws by (auto simp: image_iff)
  obtain b where b: "win (sp_hash w) = Some b" "spine_of b = w"
    using holds_window_Some [OF Suc.prems(1) d, of w] ws by auto
  have "ws' \<noteq> []" using Suc.prems(3) ws by auto
  then have "ParentHash b = sp_hash (hd ws')"
    using Suc.prems(2) ws b(2) by (auto simp: good_chain_def linked_append linked_Cons)
  with Suc.IH [of "ps @ [w]" ws' "ParentHash b" "rb @ [b]"] Suc.prems ws
  obtain rb' where "rollbackFrom win (sp_hash (ws' ! j)) (ParentHash b) (rb @ [b]) =
      Some (Inr (rb @ b # rb'))" "map spine_of rb' = take j ws'"
    by auto
  with b ne ws Suc.prems(4) show ?case
    by (intro exI [of _ "b # rb'"]) (simp add: rollbackFrom.simps)
qed

lemma rollbackFrom_window:
  assumes "holds_window ws win" "good_chain ws" "j < length ws"
  shows "\<exists>rb. rollbackFrom win (sp_hash (ws ! j)) (tip_hash ws) [] = Some (Inr rb) \<and>
    map spine_of rb = take j ws"
  using rollbackFrom_suffix [of "[]" ws win j "tip_hash ws" "[]"] assms
  by (auto simp: tip_hash_def)

section \<open>Pruning\<close>

lemma linked_filter_height:
  assumes "honest N" "set ss \<subseteq> N" "linked ss"
  shows "\<exists>m. filter (\<lambda>s. fl \<le> sp_height s) ss = take m ss"
  using assms(2,3)
proof (induction ss)
  case Nil
  then show ?case by simp
next
  case (Cons s ss)
  then obtain m where m: "filter (\<lambda>s. fl \<le> sp_height s) ss = take m ss"
    by (auto simp: linked_Cons)
  show ?case
  proof (cases "fl \<le> sp_height s")
    case True
    with m have "filter (\<lambda>s. fl \<le> sp_height s) (s # ss) = take (Suc m) (s # ss)" by simp
    then show ?thesis by blast
  next
    case False
    have "\<not> fl \<le> sp_height t" if "t \<in> set ss" for t
    proof -
      from that obtain i where i: "i < length ss" "ss ! i = t" by (auto simp: in_set_conv_nth)
      then have "unat (sp_height t) + Suc i = unat (sp_height s)"
        using linked_heights [OF assms(1), of "s # ss" "Suc i"] Cons.prems by auto
      then have "sp_height t < sp_height s" by (simp add: word_less_nat_alt)
      with False show ?thesis by auto
    qed
    then have "filter (\<lambda>s. fl \<le> sp_height s) (s # ss) = take 0 (s # ss)"
      using False by (auto simp: filter_empty_conv)
    then show ?thesis by blast
  qed
qed

lemma map_of_keyed_filter:
  "distinct (map k xs) \<Longrightarrow>
   map_of (keyed k (filter P xs)) h =
   (case map_of (keyed k xs) h of None \<Rightarrow> None | Some x \<Rightarrow> if P x then Some x else None)"
proof (induction xs)
  case (Cons x xs)
  then have "map_of (keyed k xs) (k x) = None" by (simp add: map_of_keyed_None)
  with Cons show ?case by auto
qed simp

lemma prune_window:
  assumes "honest N" "set ws \<subseteq> N" "linked ws" "holds_window ws (f_window f)"
    and "ws \<noteq> [] \<Longrightarrow> f_tipHeight f = sp_height (hd ws)"
  shows "\<exists>m. (ws \<noteq> [] \<longrightarrow> 0 < m) \<and> holds_window (take m ws) (f_window (prune f))"
proof (cases "f_tipHeight f < word_of_nat (f_maxDepth f)")
  case True
  with assms(4) show ?thesis
    by (intro exI [of _ "length ws"]) (simp add: prune_def)
next
  case False
  define fl where "fl = f_tipHeight f - word_of_nat (f_maxDepth f)"
  obtain m where m: "filter (\<lambda>s. fl \<le> sp_height s) ws = take m ws"
    using linked_filter_height [OF assms(1-3)] by blast
  have d: "distinct (map sp_hash ws)" using linked_distinct [OF assms(1-3)] .
  have "f_window (prune f) = (\<lambda>h. case f_window f h of None \<Rightarrow> None
      | Some blk \<Rightarrow> if Height blk < fl then None else Some blk)"
    unfolding fl_def prune_def using False by (simp add: Let_def)
  moreover have "map_of (keyed sp_hash ws) h = map_option spine_of (f_window f h)" for h
    using assms(4) unfolding holds_window_def sp_view_def by (metis (no_types))
  ultimately have "sp_view (f_window (prune f)) h = map_of (keyed sp_hash (take m ws)) h" for h
    unfolding m [symmetric] map_of_keyed_filter [OF d] sp_view_def
    by (cases "f_window f h") (simp_all add: not_le)
  then have h: "holds_window (take m ws) (f_window (prune f))"
    by (auto simp: holds_window_def)
  have "fl \<le> f_tipHeight f"
    unfolding fl_def using False by (simp add: word_sub_le not_less)
  with assms(5) have "ws \<noteq> [] \<Longrightarrow> take m ws \<noteq> []"
    unfolding m [symmetric] by (cases ws) auto
  with h show ?thesis by (intro exI [of _ m]) auto
qed

section \<open>The invariant\<close>

text \<open>
  \<open>f_holds sinv canon N f\<close>: the store satisfies its invariant and holds a chain of blocks of
  the honest set \<open>N\<close>; the follower's tip is its head; the window is a prefix of it, with
  the tip in it. \<open>node_in N fetch\<close>: the node answers with blocks of \<open>N\<close>, though not
  necessarily the one that was asked for.
\<close>

definition f_holds ::
  "('s \<Rightarrow> bool) \<Rightarrow> ('s \<Rightarrow> spine list) \<Rightarrow> spine set \<Rightarrow> 's follower \<Rightarrow> bool" where
  "f_holds sinv canon N f \<longleftrightarrow>
     sinv (f_store f) \<and> honest N \<and> set (canon (f_store f)) \<subseteq> N \<and>
     f_tip f = tip_hash (canon (f_store f)) \<and>
     f_tipHeight f = (if canon (f_store f) = [] then 0 else sp_height (hd (canon (f_store f)))) \<and>
     (\<exists>k. (canon (f_store f) \<noteq> [] \<longrightarrow> 0 < k) \<and>
        holds_window (take k (canon (f_store f))) (f_window f))"

definition node_in :: "spine set \<Rightarrow> (string \<Rightarrow> err + block) \<Rightarrow> bool" where
  "node_in N fetch \<longleftrightarrow> (\<forall>h b. fetch h = Inr b \<longrightarrow> spine_of b \<in> N)"

lemma prune_sel [simp]:
  "f_store (prune f) = f_store f" "f_tip (prune f) = f_tip f"
  "f_tipHeight (prune f) = f_tipHeight f" "f_maxDepth (prune f) = f_maxDepth f"
  "f_updates (prune f) = f_updates f"
  by (simp_all add: prune_def Let_def)

text \<open>The planned update, whenever the planning succeeds, and that it always ends.\<close>

lemma plan_update_window:
  assumes "holds_window ws (f_window f)" "good_chain ws" "f_tip f = tip_hash ws"
    and "node_in N fetch" "spine_of b \<in> N"
  shows "\<exists>r. plan_update fetch f b = Some r \<and>
    (\<forall>u. r = Inr u \<longrightarrow>
       set (applied u) \<subseteq> N \<and> Apply u \<noteq> [] \<and> last (Apply u) = b \<and>
       rolled u = take (length (Rollback u)) ws \<and> (ws \<noteq> [] \<longrightarrow> length (Rollback u) < length ws))"
proof (cases "f_tip f = '''' \<or> ParentHash b = f_tip f")
  case True
  with assms(5) show ?thesis by (auto simp: plan_update_def applied_def rolled_def)
next
  case False
  show ?thesis
  proof (cases "walkToKnown fetch (f_window f) (f_maxDepth f) [b] (ParentHash b)")
    case (Inl e)
    with False show ?thesis by (auto simp: plan_update_def)
  next
    case (Inr r)
    obtain branch anc where r: "r = (branch, anc)" by (cases r)
    have P: "set (map spine_of branch) \<subseteq> N \<and> branch \<noteq> [] \<and> anc = ParentHash (hd branch) \<and>
      f_window f anc \<noteq> None \<and> last branch = last [b]"
    proof (rule walkToKnown_invariant [OF Inr [unfolded r]])
      show "set (map spine_of (pb # br)) \<subseteq> N"
        if "set (map spine_of br) \<subseteq> N" "fetch (ParentHash (hd br)) = Inr pb" for pb br
        using that assms(4) by (auto simp: node_in_def)
    qed (use assms(5) in auto)
    then obtain s where "s \<in> set ws" "anc = sp_hash s"
      using holds_window_None [OF assms(1)] by auto
    then obtain j where j: "j < length ws" "anc = sp_hash (ws ! j)"
      by (auto simp: in_set_conv_nth)
    from rollbackFrom_window [OF assms(1,2) j(1)] obtain rb where
      rb: "rollbackFrom (f_window f) anc (f_tip f) [] = Some (Inr rb)" "map spine_of rb = take j ws"
      unfolding assms(3) j(2) by auto
    from rb(2) j(1) have "length rb = j"
      by (metis length_map length_take less_imp_le min.absorb2)
    with False Inr r rb P j show ?thesis
      by (auto simp: plan_update_def applied_def rolled_def)
  qed
qed

lemma good_chain_take: "good_chain cs \<Longrightarrow> honest N \<Longrightarrow> set cs \<subseteq> N \<Longrightarrow> good_chain (take k cs)"
  by (meson good_chain_def honest_good linked_take set_take_subset subset_trans)

lemma honest_fits:
  assumes "honest N" "set cs \<subseteq> N" "set (applied u) \<subseteq> N" "set (rolled u) \<subseteq> set cs"
  shows "fits u cs"
proof -
  have "set (moved u cs) \<subseteq> N"
    using assms(2,3) by (auto simp: moved_def dest: in_set_dropD)
  with assms(1,4) honest_rooted show ?thesis by (auto simp: fits_def)
qed

text \<open>What \<open>plan_update\<close> returns for the head \<open>b\<close> when the window shows the chain \<open>ws\<close>.\<close>

definition planned :: "spine set \<Rightarrow> block \<Rightarrow> chain_update \<Rightarrow> spine list \<Rightarrow> bool" where
  "planned N b u ws \<longleftrightarrow>
     set (applied u) \<subseteq> N \<and> Apply u \<noteq> [] \<and> last (Apply u) = b \<and>
     rolled u = take (length (Rollback u)) ws \<and> (ws \<noteq> [] \<longrightarrow> length (Rollback u) < length ws)"

text \<open>The follower right after the store has accepted \<open>u\<close>, before it is pruned.\<close>

definition commit_view :: "chain_update \<Rightarrow> block \<Rightarrow> 's \<Rightarrow> 's follower \<Rightarrow> 's follower" where
  "commit_view u b s' f =
     f\<lparr>f_store := s',
       f_window := fold (\<lambda>ab w. w(Hash ab \<mapsto> ab)) (Apply u)
         (fold (\<lambda>rb w. w(Hash rb := None)) (Rollback u) (f_window f)),
       f_tip := Hash b, f_tipHeight := Height b\<rparr>"

lemma planned_fits:
  assumes "honest N" "set cs \<subseteq> N" "planned N b u (take k cs)"
  shows "fits u cs"
proof (rule honest_fits [OF assms(1,2)])
  show "set (applied u) \<subseteq> N" using assms(3) by (simp add: planned_def)
  have "rolled u = take (length (Rollback u)) (take k cs)" using assms(3) unfolding planned_def by blast
  then show "set (rolled u) \<subseteq> set cs" by (auto dest: in_set_takeD)
qed

lemma planned_moved: "planned N b u ws \<Longrightarrow> moved u cs \<noteq> [] \<and> hd (moved u cs) = spine_of b"
  using moved_hd [of u cs] by (auto simp: planned_def)

lemma planned_subset: "set cs \<subseteq> N \<Longrightarrow> planned N b u ws \<Longrightarrow> set (moved u cs) \<subseteq> N"
  by (auto simp: planned_def moved_def dest: in_set_dropD)

text \<open>The window after the commit shows a non-empty part of the moved chain.\<close>

lemma planned_window:
  assumes N: "honest N" "set cs \<subseteq> N" and u: "planned N b u (take k cs)"
    and w: "holds_window (take k cs) (f_window f)" "good_chain (take k cs)" and g: "good_chain (moved u cs)"
  shows "\<exists>n. 0 < n \<and> holds_window (take n (moved u cs)) (f_window (prune (commit_view u b s' f)))"
proof -
  let ?j = "length (Rollback u)" and ?f1 = "commit_view u b s' f"
  let ?m = "applied u @ drop ?j (take k cs)"
  note u' = u [unfolded planned_def]
  have "length (rolled u) = length (take ?j (take k cs))" using u' by simp
  then have jk: "?j \<le> k" by (simp add: rolled_def)
  have win: "holds_window ?m (f_window ?f1)"
    using w u' unfolding commit_view_def applied_def
    by (simp, intro holds_window_moved) (auto simp: good_chain_def rooted_def rolled_def)
  have m: "?m = take (length (applied u) + (k - ?j)) (moved u cs)"
    using jk by (simp add: moved_def drop_take)
  have hd_m: "?m \<noteq> [] \<and> hd ?m = spine_of b" using u' by (simp add: applied_def hd_append hd_rev last_map)
  have "linked ?m" "set ?m \<subseteq> N"
    using g planned_subset [OF N(2) u] unfolding m
    by (auto simp: good_chain_def linked_take dest: in_set_takeD)
  with win hd_m obtain n where n: "0 < n" "holds_window (take n ?m) (f_window (prune ?f1))"
    using prune_window [OF N(1), of ?m ?f1] by (auto simp: commit_view_def)
  let ?n = "min n (length (applied u) + (k - ?j))"
  have "holds_window (take ?n (moved u cs)) (f_window (prune ?f1))"
    using n(2) unfolding m by (simp add: min.commute)
  moreover have "0 < ?n" using n(1) u' by (simp add: applied_def)
  ultimately show ?thesis by blast
qed

text \<open>A branch down to a block of the window is planned with the rollback of the blocks above that block.\<close>

lemma reorg_plan:
  assumes w: "holds_window ws (f_window f)" "good_chain ws" "f_tip f = tip_hash ws"
    and bs: "ancestry fetch bs" "bs \<noteq> []" "length bs \<le> f_maxDepth f"
    and new: "\<And>b. b \<in> set (butlast bs) \<Longrightarrow> f_window f (ParentHash b) = None"
    and anc: "f_window f (ParentHash (last bs)) \<noteq> None"
  shows "\<exists>rb j. plan_update fetch f (hd bs) = Some (Inr \<lparr>Rollback = rb, Apply = rev bs\<rparr>) \<and>
    map spine_of rb = take j ws \<and> j < length ws \<and> sp_hash (ws ! j) = ParentHash (last bs)"
proof -
  from anc holds_window_None [OF w(1)] obtain j where
    j: "j < length ws" "sp_hash (ws ! j) = ParentHash (last bs)"
    by (auto simp: in_set_conv_nth)
  then have "ws \<noteq> []" by auto
  have walk: "walkToKnown fetch (f_window f) (f_maxDepth f) [hd bs] (ParentHash (hd bs)) =
    Inr (rev bs, ParentHash (last bs))"
    using walkToKnown_finds [OF bs(1,2), of "[]"] bs(3) new anc by simp
  obtain rb where rb: "rollbackFrom (f_window f) (ParentHash (last bs)) (f_tip f) [] = Some (Inr rb)"
    "map spine_of rb = take j ws"
    using rollbackFrom_window [OF w(1,2) j(1)] unfolding j(2) w(3) by blast
  have "plan_update fetch f (hd bs) = Some (Inr \<lparr>Rollback = rb, Apply = rev bs\<rparr>)"
  proof (cases "f_tip f = [] \<or> ParentHash (hd bs) = f_tip f")
    case False
    with walk rb(1) show ?thesis by (simp add: plan_update_def)
  next
    case True
    have "f_tip f \<noteq> []"
      using w(2,3) \<open>ws \<noteq> []\<close> by (cases ws) (auto simp: good_chain_def rooted_def tip_hash_def)
    with True have p: "ParentHash (hd bs) = f_tip f" by simp
    have "f_window f (f_tip f) \<noteq> None"
      using holds_window_None [OF w(1)] w(3) j(1) by (cases ws) (auto simp: tip_hash_def)
    with p new bs(2) have single: "bs = [hd bs]"
      by (metis butlast.simps(2) list.collapse list.set_intros(1))
    then have "last bs = hd bs" by (metis last.simps)
    with rb(1) p have "rb = []" by (simp add: rollbackFrom.simps)
    with True single show ?thesis by (simp add: plan_update_def) (metis rev_singleton_conv)
  qed
  with rb(2) j show ?thesis by blast
qed

text \<open>The blocks of a planned update are the head and blocks the node answered.\<close>

lemma plan_update_served:
  assumes "plan_update fetch f b = Some (Inr u)" "b \<in> B" "\<And>h x. fetch h = Inr x \<Longrightarrow> x \<in> B"
  shows "set (Apply u) \<subseteq> B"
proof (cases "f_tip f = [] \<or> ParentHash b = f_tip f")
  case True
  with assms(1,2) show ?thesis by (auto simp: plan_update_def)
next
  case False
  with assms(1) obtain branch anc where
    w: "walkToKnown fetch (f_window f) (f_maxDepth f) [b] (ParentHash b) = Inr (branch, anc)" "Apply u = branch"
    by (auto simp: plan_update_def split: sum.splits option.splits)
  have "set branch \<subseteq> B \<and> branch \<noteq> [] \<and> anc = ParentHash (hd branch) \<and> f_window f anc \<noteq> None \<and> last branch = last [b]"
    by (rule walkToKnown_invariant [OF w(1)]) (use assms(2,3) in auto)
  with w(2) show ?thesis by simp
qed

text \<open>The three ways \<open>Ingest\<close> returns: nothing to do or to plan, the store refused, the store committed.\<close>

lemma Ingest_cases:
  assumes "Ingest ops fetch b f = Some (r, f')"
  obtains (same) "f' = f"
  | (refused) u e where "plan_update fetch f b = Some (Inr u)" "f_updates f' = f_updates f"
      "st_ApplyUpdate ops u (f_store f) = (Some e, f_store f')"
  | (committed) u where "plan_update fetch f b = Some (Inr u)" "f_updates f' = f_updates f @ [u]"
      "st_ApplyUpdate ops u (f_store f) = (None, f_store f')"
proof (cases "f_window f (Hash b) = None")
  case False
  with assms same show ?thesis by (simp add: Ingest_def)
next
  case True
  with assms obtain p where p: "plan_update fetch f b = Some p" by (auto simp: Ingest_def split: option.splits)
  show ?thesis
  proof (cases p)
    case (Inl e)
    with True assms p same show ?thesis by (simp add: Ingest_def)
  next
    case (Inr u)
    obtain q s' where ap: "st_ApplyUpdate ops u (f_store f) = (q, s')" by (cases "st_ApplyUpdate ops u (f_store f)")
    show ?thesis
    proof (cases q)
      case None
      with True assms p Inr ap have "f_updates f' = f_updates f @ [u]" "f_store f' = s'"
        by (auto simp: Ingest_def Let_def)
      with None p Inr ap committed show ?thesis by simp
    next
      case (Some e)
      with True assms p Inr ap have "f_updates f' = f_updates f" "f_store f' = s'"
        by (auto simp: Ingest_def)
      with Some p Inr ap refused show ?thesis by simp
    qed
  qed
qed

section \<open>Ingest on a store that keeps its contract\<close>

context chain_store
begin

lemma ingest_known: "f_window f (Hash b) \<noteq> None \<Longrightarrow> Ingest ops fetch b f = Some (None, f)"
  by (simp add: Ingest_def)

lemma holds_known_iff:
  "f_holds sinv canon N f \<Longrightarrow> f_window f (Hash b) \<noteq> None \<Longrightarrow> Hash b \<in> sp_hash ` set (canon (f_store f))"
proof -
  assume "f_holds sinv canon N f" "f_window f (Hash b) \<noteq> None"
  then obtain k y where "holds_window (take k (canon (f_store f))) (f_window f)"
    "f_window f (Hash b) = Some y"
    unfolding f_holds_def by blast
  then have "spine_of y \<in> set (canon (f_store f))" "Hash y = Hash b"
    by (auto dest: holds_window_SomeD in_set_takeD)
  then show ?thesis by (metis imageI spine_of_sel(1))
qed

lemma holds_window_chain:
  assumes "f_holds sinv canon N f"
  shows "\<exists>k. holds_window (take k (canon (f_store f))) (f_window f) \<and> good_chain (take k (canon (f_store f))) \<and>
    f_tip f = tip_hash (take k (canon (f_store f)))"
proof -
  let ?cs = "canon (f_store f)"
  from assms obtain k where k: "?cs \<noteq> [] \<Longrightarrow> 0 < k" "holds_window (take k ?cs) (f_window f)"
    and h: "sinv (f_store f)" "honest N" "set ?cs \<subseteq> N" "f_tip f = tip_hash ?cs"
    unfolding f_holds_def by blast
  have "f_tip f = tip_hash (take k ?cs)" using h(4) k(1) by (cases ?cs; cases k) (auto simp: tip_hash_def)
  with k(2) good_chain_take [OF canon_good [OF h(1)] h(2,3)] show ?thesis by blast
qed

text \<open>
  The heart of the follower: whatever the node and the store do, \<open>Ingest\<close> returns; on
  success the chain has moved by the planned update and the invariant holds again; on an
  error chain, tip and window are as before.
\<close>

lemma ingest_step:
  assumes holds: "f_holds sinv canon N f" and node: "node_in N fetch" and b: "spine_of b \<in> N"
    and new: "f_window f (Hash b) = None"
  shows "\<exists>r f'. Ingest ops fetch b f = Some (r, f') \<and> f_holds sinv canon N f' \<and>
    f_maxDepth f' = f_maxDepth f \<and>
    (case r of
       None \<Rightarrow> \<exists>u. plan_update fetch f b = Some (Inr u) \<and> f_updates f' = f_updates f @ [u] \<and>
         connects u (canon (f_store f)) \<and>
         canon (f_store f') = moved u (canon (f_store f)) \<and> hd (canon (f_store f')) = spine_of b \<and>
         canon (f_store f') \<noteq> []
     | Some e \<Rightarrow> canon (f_store f') = canon (f_store f) \<and> f_window f' = f_window f \<and>
         f_tip f' = f_tip f \<and> f_tipHeight f' = f_tipHeight f \<and> f_updates f' = f_updates f)"
proof -
  let ?cs = "canon (f_store f)"
  obtain k where k: "holds_window (take k ?cs) (f_window f)" "good_chain (take k ?cs)"
    "f_tip f = tip_hash (take k ?cs)"
    using holds_window_chain [OF holds] by blast
  have i: "sinv (f_store f)" and N: "honest N" "set ?cs \<subseteq> N" using holds by (auto simp: f_holds_def)
  from plan_update_window [OF k node b] obtain r where
    r: "plan_update fetch f b = Some r" and
    u: "\<And>u. r = Inr u \<Longrightarrow> planned N b u (take k ?cs)"
    unfolding planned_def by blast
  show ?thesis
  proof (cases r)
    case (Inl e)
    with r new holds show ?thesis by (auto simp: Ingest_def)
  next
    case (Inr u0)
    note u0 = u [OF Inr]
    obtain e s' where ap: "st_ApplyUpdate ops u0 (f_store f) = (e, s')" by (cases "st_ApplyUpdate ops u0 (f_store f)")
    show ?thesis
    proof (cases e)
      case (Some err)
      with ap apply_failed [OF i, of u0 err s'] have "sinv s' \<and> canon s' = ?cs" by simp
      with ap Some r Inr new holds show ?thesis by (auto simp: Ingest_def f_holds_def)
    next
      case None
      have "fits u0 ?cs" using planned_fits [OF N u0] .
      with ap None apply_done [OF i] have s': "sinv s'" "canon s' = moved u0 ?cs" "connects u0 ?cs" by auto
      let ?f1 = "commit_view u0 b s' f"
      have c: "canon s' \<noteq> []" "hd (canon s') = spine_of b" using planned_moved [OF u0] by (auto simp: s'(2))
      have "f_holds sinv canon N ((prune ?f1)\<lparr>f_updates := f_updates f @ [u0]\<rparr>)"
        using planned_window [OF N u0 k(1,2) canon_good [OF s'(1), unfolded s'(2)], of s'] planned_subset [OF N(2) u0]
          s'(1,2) c N(1)
        by (auto simp: f_holds_def commit_view_def tip_hash_def)
      moreover have "Ingest ops fetch b f = Some (None, (prune ?f1)\<lparr>f_updates := f_updates f @ [u0]\<rparr>)"
        using new r Inr ap None by (simp add: Ingest_def commit_view_def Let_def)
      ultimately show ?thesis using r Inr s' c by (auto simp: commit_view_def)
    qed
  qed
qed

text \<open>An update that is planned on a follower in order fits the stored chain.\<close>

lemma holds_plan_fits:
  assumes "f_holds sinv canon N f" "node_in N fetch" "spine_of b \<in> N" "plan_update fetch f b = Some (Inr u)"
  shows "fits u (canon (f_store f))"
proof -
  obtain k where k: "holds_window (take k (canon (f_store f))) (f_window f)" "good_chain (take k (canon (f_store f)))"
    "f_tip f = tip_hash (take k (canon (f_store f)))"
    using holds_window_chain [OF assms(1)] by blast
  from plan_update_window [OF k assms(2,3)] assms(4) have "planned N b u (take k (canon (f_store f)))"
    by (auto simp: planned_def)
  with planned_fits assms(1) show ?thesis by (auto simp: f_holds_def)
qed

lemma ingest_total:
  assumes "f_holds sinv canon N f" "node_in N fetch" "spine_of b \<in> N"
  shows "\<exists>r f'. Ingest ops fetch b f = Some (r, f') \<and> f_holds sinv canon N f' \<and>
    f_maxDepth f' = f_maxDepth f"
  using ingest_step [OF assms] ingest_known [of f b fetch] assms(1)
  by (cases "f_window f (Hash b) = None") fastforce+

lemma ingest_holds:
  "f_holds sinv canon N f \<Longrightarrow> node_in N fetch \<Longrightarrow> spine_of b \<in> N \<Longrightarrow>
   Ingest ops fetch b f = Some (r, f') \<Longrightarrow> f_holds sinv canon N f'"
  using ingest_total [of N f fetch b] by auto

lemma ingest_error_keeps:
  assumes "f_holds sinv canon N f" "node_in N fetch" "spine_of b \<in> N"
    and "Ingest ops fetch b f = Some (Some e, f')"
  shows "canon (f_store f') = canon (f_store f) \<and> f_window f' = f_window f \<and>
    f_tip f' = f_tip f \<and> f_tipHeight f' = f_tipHeight f \<and> f_updates f' = f_updates f"
proof -
  have "f_window f (Hash b) = None"
    using assms(4) ingest_known [of f b fetch] by force
  from ingest_step [OF assms(1-3) this] assms(4) show ?thesis by auto
qed

text \<open>A head that was not known becomes the tip of the store, of the window and of the follower.\<close>

lemma ingest_moves_tip:
  assumes "f_holds sinv canon N f" "node_in N fetch" "spine_of b \<in> N"
    and "f_window f (Hash b) = None" "Ingest ops fetch b f = Some (None, f')"
  shows "follower_Tip f' = (Hash b, Height b) \<and> canon (f_store f') \<noteq> [] \<and>
    hd (canon (f_store f')) = spine_of b \<and>
    (\<exists>u. f_updates f' = f_updates f @ [u] \<and> connects u (canon (f_store f)) \<and>
       canon (f_store f') = moved u (canon (f_store f)))"
proof -
  from ingest_step [OF assms(1-4)] assms(5)
  have "f_holds sinv canon N f'" "canon (f_store f') \<noteq> []" "hd (canon (f_store f')) = spine_of b"
    "\<exists>u. f_updates f' = f_updates f @ [u] \<and> connects u (canon (f_store f)) \<and>
       canon (f_store f') = moved u (canon (f_store f))"
    by auto
  then show ?thesis by (auto simp: f_holds_def follower_Tip_def tip_hash_def)
qed

section \<open>Starting and restarting\<close>

lemma new_holds:
  assumes "sinv st" "honest N" "set (canon st) \<subseteq> N" "0 < d" "follower_New ops st d = Inr f"
  shows "f_holds sinv canon N f \<and> f_store f = st \<and> f_maxDepth f = d \<and>
    holds_window (take d (canon st)) (f_window f) \<and> f_updates f = []"
proof -
  from assms(5) obtain recent where rec: "st_RecentBlocks ops d st = Inr recent"
    and f: "f = \<lparr>f_store = st, f_maxDepth = d,
               f_window = fold (\<lambda>b w. w(Hash b \<mapsto> b)) recent Map.empty,
               f_tip = (if recent = [] then '''' else Hash (hd recent)),
               f_tipHeight = (if recent = [] then 0 else Height (hd recent)),
               f_updates = []\<rparr>"
    by (auto simp: follower_New_def split: sum.splits)
  have sp: "map spine_of recent = take d (canon st)"
    by (rule recent_law [OF assms(1,4) rec])
  have dist: "distinct (map sp_hash (map spine_of recent))"
    using canon_good [OF assms(1)] unfolding sp
    by (simp add: good_chain_def rooted_def flip: take_map)
  have "sp_view (f_window f) = map_of (keyed sp_hash (rev (map spine_of recent)))"
    using fold_insert_keyed [of sp_hash "map spine_of recent" "[]"]
    by (simp add: f sp_view_fold_insert sp_view_def [of Map.empty])
  also have "\<dots> = map_of (keyed sp_hash (map spine_of recent))"
    using dist by (subst map_of_inject_set) (auto simp: comp_def rev_map [symmetric])
  finally have win: "holds_window (take d (canon st)) (f_window f)"
    by (simp add: holds_window_def sp)
  have "recent = [] \<longleftrightarrow> canon st = []"
    using sp assms(4) by (auto simp: take_eq_Nil)
  moreover have "recent \<noteq> [] \<Longrightarrow> spine_of (hd recent) = hd (canon st)"
    using arg_cong [OF sp, of hd] assms(4) by (simp add: hd_map)
  then have "recent \<noteq> [] \<Longrightarrow> Hash (hd recent) = sp_hash (hd (canon st)) \<and>
      Height (hd recent) = sp_height (hd (canon st))"
    by (metis spine_of_sel(1,3))
  ultimately show ?thesis
    using win assms by (auto simp: f_holds_def f tip_hash_def intro!: exI [of _ d])
qed

section \<open>Catching up\<close>

lemma holds_known_height:
  assumes "f_holds sinv canon N f" "spine_of b \<in> N" "f_window f (Hash b) \<noteq> None"
  shows "unat (Height b) \<le> unat (f_tipHeight f)"
proof -
  let ?cs = "canon (f_store f)"
  from holds_known_iff [OF assms(1,3)] obtain s where s: "s \<in> set ?cs" "sp_hash s = Hash b" by auto
  have N: "honest N" "set ?cs \<subseteq> N" "linked ?cs" "f_tipHeight f = sp_height (hd ?cs)"
    using assms(1) s(1) canon_good unfolding f_holds_def good_chain_def by auto
  have "s = spine_of b" using N(1,2) s assms(2) by (auto intro: honest_inj)
  with s(1) obtain i where "i < length ?cs" "?cs ! i = spine_of b" by (auto simp: in_set_conv_nth)
  with linked_heights [OF N(1-3), of i] N(4) show ?thesis by simp
qed

lemma ingest_height:
  assumes "f_holds sinv canon N f" "node_in N fetch" "spine_of b \<in> N"
    and "f_tipHeight f \<le> Height b" "Ingest ops fetch b f = Some (None, f')"
  shows "f_tipHeight f' = Height b"
proof (cases "f_window f (Hash b) = None")
  case True
  from ingest_moves_tip [OF assms(1-3) True assms(5)] show ?thesis by (simp add: follower_Tip_def)
next
  case False
  with assms(5) ingest_known [of f b fetch] have "f' = f" by simp
  moreover have "Height b \<le> f_tipHeight f"
    using holds_known_height [OF assms(1,3) False] by (simp add: word_le_nat_alt)
  ultimately show ?thesis using assms(4) by simp
qed

lemma ingest_blocks_total:
  assumes "f_holds sinv canon N f" "node_in N fetch" "\<And>b. b \<in> set bs \<Longrightarrow> spine_of b \<in> N"
  shows "\<exists>r f'. ingest_blocks ops fetch bs f = Some (r, f') \<and> f_holds sinv canon N f' \<and>
    f_maxDepth f' = f_maxDepth f"
  using assms
proof (induction bs arbitrary: f)
  case Nil
  then show ?case by simp
next
  case (Cons b bs)
  then obtain r f1 where f1: "Ingest ops fetch b f = Some (r, f1)" "f_holds sinv canon N f1"
    "f_maxDepth f1 = f_maxDepth f"
    using ingest_total [of N f fetch b] by auto
  show ?case
  proof (cases r)
    case None
    with Cons.IH [OF f1(2)] Cons.prems f1 show ?thesis by fastforce
  next
    case (Some e)
    with f1 show ?thesis by simp
  qed
qed

lemma ingest_blocks_height:
  assumes "f_holds sinv canon N f" "node_in N fetch" "\<And>b. b \<in> set bs \<Longrightarrow> spine_of b \<in> N"
    and "bs \<noteq> []" "sorted (map Height bs)" "f_tipHeight f \<le> Height (hd bs)"
    and "ingest_blocks ops fetch bs f = Some (None, f')"
  shows "f_tipHeight f' = Height (last bs)"
  using assms
proof (induction bs arbitrary: f)
  case Nil
  then show ?case by simp
next
  case (Cons b bs)
  then obtain f1 where f1: "Ingest ops fetch b f = Some (None, f1)"
    "ingest_blocks ops fetch bs f1 = Some (None, f')"
    by (auto split: option.splits prod.splits)
  have h: "f_tipHeight f1 = Height b"
    using Cons.prems f1 by (intro ingest_height [where f = f and b = b and f' = f1 and N = N]) auto
  have "f_holds sinv canon N f1"
    using Cons.prems f1 by (intro ingest_holds [where f = f and b = b and f' = f1 and N = N]) auto
  show ?case
  proof (cases "bs = []")
    case True
    with f1 h show ?thesis by simp
  next
    case False
    with Cons.prems h have "f_tipHeight f1 \<le> Height (hd bs)" by (cases bs) auto
    with Cons.IH [OF \<open>f_holds sinv canon N f1\<close>] False Cons.prems f1 show ?thesis by auto
  qed
qed

text \<open>
  \<open>range_in N rf\<close> is what \<open>BlocksByRange\<close> promises: blocks of the asked range, in the order
  of their heights. Each round then ends above the height it started from, so the loop ends.
\<close>

lemma catchUp_round_progress:
  assumes "f_holds sinv canon N f" "node_in N fetch" "f_tipHeight f < target"
    and bs: "sorted (map Height bs)" "\<forall>b \<in> set bs. spine_of b \<in> N \<and> f_tipHeight f + 1 \<le> Height b" "bs \<noteq> []"
    and "ingest_blocks ops fetch bs f = Some (None, f1)"
  shows "unat target - unat (f_tipHeight f1) < unat target - unat (f_tipHeight f)"
proof -
  have "f_tipHeight f \<noteq> - 1" using assms(3) by (metis word_order.extremum_strict)
  then have lo: "unat (f_tipHeight f + 1) = unat (f_tipHeight f) + 1" by (rule unat_inc)
  have "f_tipHeight f + 1 \<le> Height (hd bs)" "f_tipHeight f + 1 \<le> Height (last bs)" using bs by auto
  then have h: "f_tipHeight f \<le> Height (hd bs)" "unat (f_tipHeight f) < unat (Height (last bs))"
    using lo by (auto simp: word_le_nat_alt)
  then have "f_tipHeight f1 = Height (last bs)"
    using ingest_blocks_height [OF assms(1,2)] bs assms(7) by blast
  with h assms(3) show ?thesis by (simp add: word_less_nat_alt)
qed

lemma catchUp_returns:
  assumes "f_holds sinv canon N f" "node_in N fetch"
    and rf: "\<And>lo hi bs. rf lo hi = Inr bs \<Longrightarrow>
      sorted (map Height bs) \<and> (\<forall>b \<in> set bs. spine_of b \<in> N \<and> lo \<le> Height b \<and> Height b < hi)"
  shows "\<exists>r f'. CatchUp ops fetch rf target f = Some (r, f') \<and> f_holds sinv canon N f' \<and>
    (r = None \<longrightarrow> target \<le> f_tipHeight f' \<or>
       rf (f_tipHeight f' + 1) (min (f_tipHeight f' + 1 + 100) (target + 1)) = Inr [])"
  using assms(1)
proof (induction "unat target - unat (f_tipHeight f)" arbitrary: f rule: less_induct)
  case less
  let ?lo = "f_tipHeight f + 1"
  let ?hi = "min (?lo + 100) (target + 1)"
  consider (reached) "\<not> f_tipHeight f < target"
    | (failed) e where "f_tipHeight f < target" "rf ?lo ?hi = Inl e"
    | (none) "f_tipHeight f < target" "rf ?lo ?hi = Inr []"
    | (round) bs where "f_tipHeight f < target" "rf ?lo ?hi = Inr bs" "bs \<noteq> []"
    by (metis sum.exhaust)
  then show ?case
  proof cases
    case reached
    then have "CatchUp ops fetch rf target f = Some (None, f)"
      by (subst CatchUp.simps) (simp only: if_False)
    with reached less.prems show ?thesis by (metis leI)
  next
    case failed
    with less.prems show ?thesis by (simp add: CatchUp.simps [of ops])
  next
    case none
    with less.prems show ?thesis by (simp add: CatchUp.simps [of ops])
  next
    case round
    note bs = rf [OF round(2)]
    obtain r f1 where f1: "ingest_blocks ops fetch bs f = Some (r, f1)" "f_holds sinv canon N f1"
      using ingest_blocks_total [OF less.prems assms(2), of bs] bs by auto
    show ?thesis
    proof (cases r)
      case (Some e)
      with round f1 show ?thesis by (simp add: CatchUp.simps [of ops])
    next
      case None
      have "unat target - unat (f_tipHeight f1) < unat target - unat (f_tipHeight f)"
        using bs round(3) f1(1) None by (intro catchUp_round_progress [OF less.prems assms(2) round(1), of bs]) auto
      from less.hyps [OF this f1(2)] round f1(1) None show ?thesis
        by (simp add: CatchUp.simps [of ops _ _ _ f])
    qed
  qed
qed

end

context reliable_store
begin

text \<open>
  Progress: when the node serves the ancestry of a new head down to a block of the window,
  and that takes at most \<open>maxDepth\<close> blocks, the reorganisation is performed, and it rolls
  back exactly the blocks above the common ancestor.
\<close>

lemma ingest_reorg:
  assumes holds: "f_holds sinv canon N f" and "node_in N fetch" "spine_of (hd bs) \<in> N"
    and bs: "ancestry fetch bs" "bs \<noteq> []" "length bs \<le> f_maxDepth f" "linked (map spine_of bs)"
    and new: "f_window f (Hash (hd bs)) = None"
      "\<And>b. b \<in> set (butlast bs) \<Longrightarrow> f_window f (ParentHash b) = None"
    and anc: "f_window f (ParentHash (last bs)) \<noteq> None"
  shows "\<exists>f' j. Ingest ops fetch (hd bs) f = Some (None, f') \<and> f_holds sinv canon N f' \<and>
    j < length (canon (f_store f)) \<and> sp_hash (canon (f_store f) ! j) = ParentHash (last bs) \<and>
    canon (f_store f') = map spine_of bs @ drop j (canon (f_store f))"
proof -
  let ?cs = "canon (f_store f)"
  obtain k where k: "holds_window (take k ?cs) (f_window f)" "good_chain (take k ?cs)"
    "f_tip f = tip_hash (take k ?cs)"
    using holds_window_chain [OF holds] by blast
  have i: "sinv (f_store f)" and N: "honest N" "set ?cs \<subseteq> N" using holds by (auto simp: f_holds_def)
  from reorg_plan [OF k bs(1-3) new(2) anc] obtain rb j where
    rb: "plan_update fetch f (hd bs) = Some (Inr \<lparr>Rollback = rb, Apply = rev bs\<rparr>)"
      "map spine_of rb = take j (take k ?cs)"
    and j: "j < length (take k ?cs)" "sp_hash (take k ?cs ! j) = ParentHash (last bs)"
    by blast
  define u where "u = \<lparr>Rollback = rb, Apply = rev bs\<rparr>"
  note plan = rb(1) [folded u_def]
  have len: "length rb = j" using arg_cong [OF rb(2), of length] j(1) by simp
  from plan_update_window [OF k assms(2,3)] plan have "planned N (hd bs) u (take k ?cs)"
    by (auto simp: planned_def)
  then have "fits u ?cs" by (rule planned_fits [OF N])
  moreover have "connects u ?cs"
    using rb(2) len bs(2,4) j
    by (auto simp: connects_def u_def rolled_def applied_def rev_map base_hash_def hd_rev)
  ultimately obtain s' where "st_ApplyUpdate ops u (f_store f) = (None, s')"
    using apply_accepts [OF i] by blast
  with plan new(1) have "\<exists>f'. Ingest ops fetch (hd bs) f = Some (None, f')"
    by (simp add: Ingest_def Let_def)
  then obtain f' where f': "Ingest ops fetch (hd bs) f = Some (None, f')" by blast
  from ingest_step [OF holds assms(2,3) new(1)] f' plan
  have "f_holds sinv canon N f'" "canon (f_store f') = moved u ?cs" by auto
  with f' j len show ?thesis
    by (intro exI [of _ f'] exI [of _ j]) (auto simp: moved_def applied_def u_def rev_map)
qed

end

end
