(* ===== verification/Indexer.thy ===== *)
theory Indexer
  imports Follower
begin

text \<open>
  \<open>internal/indexer/indexer.go\<close> and the counters of \<open>internal/metrics/metrics.go\<close>: the follow
  loop. The state is the follower plus the Prometheus counters; \<open>OnUpdate\<close> is the follower's log
  of updates, over which \<open>recordUpdate\<close> runs. \<open>ix_ingest\<close> and \<open>catchUpIfBehind\<close> are the two
  entry points, \<open>ix_step\<close> is one iteration of the \<open>select\<close> loop of \<open>Run\<close>: a head from the
  WebSocket channel, a polled head, or a failed poll. What the node answers may change from one
  step to the next, out of one set of blocks; \<open>ix_run\<close> is any number of steps.

  The invariant is \<open>ix_holds\<close>; \<open>ix_run_follows\<close> carries any relation between the log of updates and the
  store that \<open>ApplyUpdate\<close> keeps (\<open>tracks\<close>) through a run, with the blocks of the log among those served.
\<close>

record counters =
  BlocksApplied :: nat
  Reorgs :: nat
  ReorgDepth :: "nat list"
  TipHeight :: u64
  RPCErrors :: nat

record 's indexer =
  ix_Follower :: "'s follower"
  ix_ReorgDepth :: nat
  ix_counters :: counters

section \<open>The code\<close>

definition recordUpdate :: "chain_update \<Rightarrow> counters \<Rightarrow> counters" where
  "recordUpdate u m =
     (let m1 = m\<lparr>BlocksApplied := BlocksApplied m + length (Apply u)\<rparr>;
          m2 = (if Rollback u = [] then m1
                else m1\<lparr>Reorgs := Reorgs m1 + 1, ReorgDepth := ReorgDepth m1 @ [length (Rollback u)]\<rparr>)
      in m2\<lparr>TipHeight := Height (last (Apply u))\<rparr>)"

text \<open>The updates a call of the follower handed to \<open>OnUpdate\<close>, recorded.\<close>

definition record_new :: "'s follower \<Rightarrow> 's follower \<Rightarrow> counters \<Rightarrow> counters" where
  "record_new f f' m = fold recordUpdate (drop (length (f_updates f)) (f_updates f')) m"

definition count_error :: "err option \<Rightarrow> counters \<Rightarrow> counters" where
  "count_error r m = (case r of None \<Rightarrow> m | Some e \<Rightarrow> m\<lparr>RPCErrors := RPCErrors m + 1\<rparr>)"

definition too_deep :: "err option \<Rightarrow> bool" where
  "too_deep r = (case r of None \<Rightarrow> False | Some e \<Rightarrow> errors_Is e ErrReorgTooDeep)"

definition ix_ingest ::
  "'s store_ops \<Rightarrow> (string \<Rightarrow> err + block) \<Rightarrow> (u64 \<Rightarrow> u64 \<Rightarrow> err + block list) \<Rightarrow> block \<Rightarrow>
   's indexer \<Rightarrow> 's indexer option" where
  "ix_ingest ops fetch rf head ix =
     (case Ingest ops fetch head (ix_Follower ix) of
        None \<Rightarrow> None
      | Some (r, f1) \<Rightarrow>
          (case (if too_deep r \<and> f_tipHeight f1 + word_of_nat (ix_ReorgDepth ix) < Height head
                 then CatchUp ops fetch rf (Height head) f1 else Some (r, f1)) of
             None \<Rightarrow> None
           | Some (r', f2) \<Rightarrow>
               Some (ix\<lparr>ix_Follower := f2,
                        ix_counters := count_error r' (record_new (ix_Follower ix) f2 (ix_counters ix))\<rparr>)))"

definition catchUpIfBehind ::
  "'s store_ops \<Rightarrow> (string \<Rightarrow> err + block) \<Rightarrow> (u64 \<Rightarrow> u64 \<Rightarrow> err + block list) \<Rightarrow> (err + block) \<Rightarrow>
   's indexer \<Rightarrow> (err option \<times> 's indexer) option" where
  "catchUpIfBehind ops fetch rf latest ix =
     (if snd (follower_Tip (ix_Follower ix)) = 0 then Some (None, ix)
      else (case latest of
              Inl e \<Rightarrow> Some (None, ix)
            | Inr head \<Rightarrow>
                if Height head \<le> snd (follower_Tip (ix_Follower ix)) + word_of_nat (ix_ReorgDepth ix)
                then Some (None, ix)
                else (case CatchUp ops fetch rf (Height head) (ix_Follower ix) of
                        None \<Rightarrow> None
                      | Some (r, f) \<Rightarrow>
                          Some (r, ix\<lparr>ix_Follower := f,
                                      ix_counters := record_new (ix_Follower ix) f (ix_counters ix)\<rparr>))))"

text \<open>\<open>NewIndexer\<close>: the indexer over a follower that has just been built, all counters at zero.\<close>

definition NewIndexer :: "'s follower \<Rightarrow> nat \<Rightarrow> 's indexer" where
  "NewIndexer f depth =
     \<lparr>ix_Follower = f, ix_ReorgDepth = depth,
      ix_counters = \<lparr>BlocksApplied = 0, Reorgs = 0, ReorgDepth = [], TipHeight = 0, RPCErrors = 0\<rparr>\<rparr>"

text \<open>
  \<open>node_ok B fetch rf\<close>: every block the node answers is a block of \<open>B\<close>, the blocks with their
  bodies, and a range comes back sorted and inside the asked heights. The spines of the blocks,
  \<open>spine_of ` B\<close>, are what \<open>honest\<close> speaks of.
\<close>

definition node_ok :: "block set \<Rightarrow> (string \<Rightarrow> err + block) \<Rightarrow> (u64 \<Rightarrow> u64 \<Rightarrow> err + block list) \<Rightarrow> bool" where
  "node_ok B fetch rf \<longleftrightarrow>
     (\<forall>h b. fetch h = Inr b \<longrightarrow> b \<in> B) \<and>
     (\<forall>lo hi bs. rf lo hi = Inr bs \<longrightarrow>
        sorted (map Height bs) \<and> (\<forall>b \<in> set bs. b \<in> B \<and> lo \<le> Height b \<and> Height b < hi))"

inductive ix_step :: "'s store_ops \<Rightarrow> block set \<Rightarrow> 's indexer \<Rightarrow> 's indexer \<Rightarrow> bool"
  for ops B where
  head: "node_ok B fetch rf \<Longrightarrow> head \<in> B \<Longrightarrow> ix_ingest ops fetch rf head ix = Some ix' \<Longrightarrow>
    ix_step ops B ix ix'"
| poll_failed: "ix_step ops B ix (ix\<lparr>ix_counters := count_error (Some e) (ix_counters ix)\<rparr>)"

inductive ix_run :: "'s store_ops \<Rightarrow> block set \<Rightarrow> 's indexer \<Rightarrow> 's indexer \<Rightarrow> bool"
  for ops B where
  start: "node_ok B fetch rf \<Longrightarrow> (\<And>b. latest = Inr b \<Longrightarrow> b \<in> B) \<Longrightarrow>
    catchUpIfBehind ops fetch rf latest ix = Some (None, ix') \<Longrightarrow> ix_run ops B ix ix'"
| step: "ix_run ops B ix ix' \<Longrightarrow> ix_step ops B ix' ix'' \<Longrightarrow> ix_run ops B ix ix''"

inductive_cases ix_stepE: "ix_step ops B ix ix'"

lemma node_ok_in: "node_ok B fetch rf \<Longrightarrow> node_in (spine_of ` B) fetch"
  by (auto simp: node_ok_def node_in_def)

lemma node_ok_range:
  "node_ok B fetch rf \<Longrightarrow> rf lo hi = Inr bs \<Longrightarrow>
   sorted (map Height bs) \<and> (\<forall>b \<in> set bs. spine_of b \<in> spine_of ` B \<and> lo \<le> Height b \<and> Height b < hi)"
  by (auto simp: node_ok_def)

section \<open>The counters follow the updates\<close>

definition update_counters :: "chain_update list \<Rightarrow> counters \<Rightarrow> bool" where
  "update_counters us m \<longleftrightarrow>
     BlocksApplied m = sum_list (map (length \<circ> Apply) us) \<and>
     Reorgs m = length (filter (\<lambda>u. Rollback u \<noteq> []) us) \<and>
     ReorgDepth m = map (length \<circ> Rollback) (filter (\<lambda>u. Rollback u \<noteq> []) us) \<and>
     (us \<noteq> [] \<longrightarrow> TipHeight m = Height (last (Apply (last us))))"

lemma update_counters_record: "update_counters us m \<Longrightarrow> update_counters (us @ [u]) (recordUpdate u m)"
  by (simp add: update_counters_def recordUpdate_def Let_def)

lemma update_counters_fold: "update_counters us m \<Longrightarrow> update_counters (us @ vs) (fold recordUpdate vs m)"
proof (induction vs arbitrary: us m)
  case (Cons v vs)
  from Cons.IH [OF update_counters_record [OF Cons.prems]] show ?case by simp
qed simp

lemma update_counters_error [simp]: "update_counters us (count_error r m) = update_counters us m"
  by (auto simp: update_counters_def count_error_def split: option.splits)

section \<open>The store follows the log\<close>

text \<open>
  \<open>tracks ops sinv canon R\<close>: every call of \<open>ApplyUpdate\<close> carries the relation \<open>R\<close> between a log of
  updates and the store on. \<open>follows R B f\<close>: the store is related by \<open>R\<close> to the log of committed updates, and the log applies
  only blocks of \<open>B\<close>.
\<close>

definition tracks ::
  "'s store_ops \<Rightarrow> ('s \<Rightarrow> bool) \<Rightarrow> ('s \<Rightarrow> spine list) \<Rightarrow> (chain_update list \<Rightarrow> 's \<Rightarrow> bool) \<Rightarrow> bool" where
  "tracks ops sinv canon R \<longleftrightarrow>
     (\<forall>us u s e s'. sinv s \<longrightarrow> R us s \<longrightarrow> st_ApplyUpdate ops u s = (Some e, s') \<longrightarrow> R us s') \<and>
     (\<forall>us u s s'. sinv s \<longrightarrow> R us s \<longrightarrow> fits u (canon s) \<longrightarrow> st_ApplyUpdate ops u s = (None, s') \<longrightarrow>
        R (us @ [u]) s')"

definition follows :: "(chain_update list \<Rightarrow> 's \<Rightarrow> bool) \<Rightarrow> block set \<Rightarrow> 's follower \<Rightarrow> bool" where
  "follows R B f \<longleftrightarrow> R (f_updates f) (f_store f) \<and> (\<forall>u \<in> set (f_updates f). set (Apply u) \<subseteq> B)"

section \<open>The invariant of the loop\<close>

definition grows :: "chain_update list \<Rightarrow> 's follower \<Rightarrow> bool" where
  "grows us f \<longleftrightarrow> (\<exists>vs. f_updates f = us @ vs)"

definition tip_logged :: "'s follower \<Rightarrow> bool" where
  "tip_logged f \<longleftrightarrow>
     (\<forall>u \<in> set (f_updates f). Apply u \<noteq> []) \<and>
     (f_updates f \<noteq> [] \<longrightarrow> Height (last (Apply (last (f_updates f)))) = f_tipHeight f)"

definition ix_holds ::
  "('s \<Rightarrow> bool) \<Rightarrow> ('s \<Rightarrow> spine list) \<Rightarrow> spine set \<Rightarrow> 's indexer \<Rightarrow> bool" where
  "ix_holds sinv canon N ix \<longleftrightarrow>
     f_holds sinv canon N (ix_Follower ix) \<and> tip_logged (ix_Follower ix) \<and>
     update_counters (f_updates (ix_Follower ix)) (ix_counters ix)"

lemma record_new_counters:
  assumes "update_counters (f_updates f) m" "grows (f_updates f) f'"
  shows "update_counters (f_updates f') (record_new f f' m)"
proof -
  obtain vs where "f_updates f' = f_updates f @ vs" using assms(2) by (auto simp: grows_def)
  with update_counters_fold [OF assms(1), of vs] show ?thesis by (simp add: record_new_def)
qed

context chain_store
begin

lemma ingest_logs:
  assumes "f_holds sinv canon N f \<and> tip_logged f \<and> grows us f" "node_in N fetch" "spine_of b \<in> N"
    and "Ingest ops fetch b f = Some (r, f')"
  shows "f_holds sinv canon N f' \<and> tip_logged f' \<and> grows us f'"
proof (cases "f_window f (Hash b) = None")
  case False
  with assms(1,4) ingest_known [of f b fetch] show ?thesis by simp
next
  case True
  have h: "f_holds sinv canon N f" using assms(1) by simp
  have h': "f_holds sinv canon N f'" by (rule ingest_holds [OF h assms(2-4)])
  show ?thesis
  proof (cases r)
    case (Some e)
    with ingest_error_keeps [OF h assms(2,3), of e f'] assms(1,4) h'
    show ?thesis by (simp add: tip_logged_def grows_def)
  next
    case None
    with ingest_moves_tip [OF h assms(2,3) True] assms(4) obtain u where
      u: "f_updates f' = f_updates f @ [u]" "connects u (canon (f_store f))"
      "canon (f_store f') = moved u (canon (f_store f))" "hd (canon (f_store f')) = spine_of b"
      "follower_Tip f' = (Hash b, Height b)"
      by auto
    have ne: "Apply u \<noteq> []" using u(2) by (simp add: connects_def)
    with moved_hd [of u "canon (f_store f)"] u(3,4)
    have "spine_of (last (Apply u)) = spine_of b" by auto
    then have "Height (last (Apply u)) = Height b" by (simp add: spine_of_def)
    with u(1,5) ne assms(1) have "tip_logged f'" by (simp add: tip_logged_def follower_Tip_def)
    moreover have "grows us f'" using assms(1) u(1) by (auto simp: grows_def)
    ultimately show ?thesis using h' by simp
  qed
qed

text \<open>What every ingest keeps, catching up keeps.\<close>

lemma ingest_blocks_keeps:
  assumes "ingest_blocks ops fetch bs f = Some (r, f')" "P f"
    and "\<And>b f r f'. b \<in> set bs \<Longrightarrow> P f \<Longrightarrow> Ingest ops fetch b f = Some (r, f') \<Longrightarrow> P f'"
  shows "P f'"
  using assms
proof (induction bs arbitrary: f)
  case (Cons b bs)
  from Cons.prems(1) obtain q f1 where f1: "Ingest ops fetch b f = Some (q, f1)"
    by (auto split: option.splits prod.splits)
  have P1: "P f1" using Cons.prems(3) [OF _ Cons.prems(2) f1] by simp
  show ?case
  proof (cases q)
    case None
    have "ingest_blocks ops fetch bs f1 = Some (r, f')"
      using Cons.prems(1) f1 None by simp
    moreover have "\<And>b f r f'. b \<in> set bs \<Longrightarrow> P f \<Longrightarrow> Ingest ops fetch b f = Some (r, f') \<Longrightarrow> P f'"
      using Cons.prems(3) by (meson list.set_intros(2))
    ultimately show ?thesis using Cons.IH P1 by blast
  next
    case (Some e)
    with Cons.prems(1) f1 P1 show ?thesis by simp
  qed
qed simp

text \<open>A round of \<open>CatchUp\<close> ingests the blocks of one range; what every round keeps, the loop keeps.\<close>

lemma catchUp_rounds:
  assumes "CatchUp ops fetch rf target f = Some (r, f')" "P f"
    and round: "\<And>lo hi bs f q f1. rf lo hi = Inr bs \<Longrightarrow> P f \<Longrightarrow> ingest_blocks ops fetch bs f = Some (q, f1) \<Longrightarrow> P f1"
  shows "P f'"
proof -
  have "P f \<longrightarrow> P (snd (r, f'))"
  proof (rule CatchUp.raw_induct [where P = "\<lambda>o' fe r' t f y. o' = ops \<and> fe = fetch \<and> r' = rf \<longrightarrow> P f \<longrightarrow> P (snd y)",
        OF _ assms(1), THEN mp], intro impI)
    fix C o' fe r' t f y
    assume IH: "\<And>a b c d e z. C a b c d e = Some z \<Longrightarrow> a = ops \<and> b = fetch \<and> c = rf \<longrightarrow> P e \<longrightarrow> P (snd z)"
      and o: "o' = ops \<and> fe = fetch \<and> r' = rf" and P: "P f"
      and y: "(if f_tipHeight f < t
        then let lo = f_tipHeight f + 1; hi = min (lo + 100) (t + 1) in
          (case r' lo hi of Inl e \<Rightarrow> Some (Some (Wrap ''catch-up fetch'' e), f)
           | Inr blocks \<Rightarrow>
               if blocks = [] then Some (None, f)
               else (case ingest_blocks o' fe blocks f of None \<Rightarrow> None
                     | Some (Some e, f') \<Rightarrow> Some (Some e, f')
                     | Some (None, f') \<Rightarrow> C o' fe r' t f'))
        else Some (None, f)) = Some y"
    then consider "snd y = f"
      | bs q f1 where "rf (f_tipHeight f + 1) (min (f_tipHeight f + 1 + 100) (t + 1)) = Inr bs"
          "ingest_blocks ops fetch bs f = Some (q, f1)" "snd y = f1 \<or> C ops fetch rf t f1 = Some y"
      by (auto simp: Let_def split: if_splits sum.splits option.splits)
    then show "P (snd y)"
    proof cases
      case 1
      with P show ?thesis by simp
    next
      case 2
      from round [OF 2(1) P 2(2)] IH 2(3) show ?thesis by blast
    qed
  qed simp
  with assms(2) show ?thesis by simp
qed

lemma catchUp_keeps:
  assumes "CatchUp ops fetch rf target f = Some (r, f')" "P f"
    and "\<And>lo hi bs b f r f'. rf lo hi = Inr bs \<Longrightarrow> b \<in> set bs \<Longrightarrow> P f \<Longrightarrow>
      Ingest ops fetch b f = Some (r, f') \<Longrightarrow> P f'"
  shows "P f'"
proof (rule catchUp_rounds [where P = P, OF assms(1,2)])
  fix lo hi bs f q f1
  assume "rf lo hi = Inr bs" "P f" "ingest_blocks ops fetch bs f = Some (q, f1)"
  then show "P f1" using assms(3) by (blast intro: ingest_blocks_keeps)
qed

lemma catchUp_logs:
  assumes "f_holds sinv canon (spine_of ` B) f \<and> tip_logged f \<and> grows us f" "node_ok B fetch rf"
    and "CatchUp ops fetch rf target f = Some (r, f')"
  shows "f_holds sinv canon (spine_of ` B) f' \<and> tip_logged f' \<and> grows us f'"
proof (rule catchUp_keeps [where P = "\<lambda>f. f_holds sinv canon (spine_of ` B) f \<and> tip_logged f \<and> grows us f",
      OF assms(3,1)])
  fix lo hi bs b f r f'
  assume "rf lo hi = Inr bs" "b \<in> set bs" "f_holds sinv canon (spine_of ` B) f \<and> tip_logged f \<and> grows us f"
    "Ingest ops fetch b f = Some (r, f')"
  with assms(2) show "f_holds sinv canon (spine_of ` B) f' \<and> tip_logged f' \<and> grows us f'"
    by (intro ingest_logs [of "spine_of ` B" f us fetch b r f']) (auto simp: node_ok_def node_in_def)
qed

lemma ix_ingest_holds:
  assumes "ix_holds sinv canon (spine_of ` B) ix" "node_ok B fetch rf" "head \<in> B"
  shows "\<exists>ix'. ix_ingest ops fetch rf head ix = Some ix' \<and> ix_holds sinv canon (spine_of ` B) ix'"
proof -
  let ?f = "ix_Follower ix" and ?us = "f_updates (ix_Follower ix)"
  have start: "f_holds sinv canon (spine_of ` B) ?f \<and> tip_logged ?f \<and> grows ?us ?f"
    using assms(1) by (simp add: ix_holds_def grows_def)
  have node: "node_in (spine_of ` B) fetch" "spine_of head \<in> spine_of ` B"
    using assms(2,3) by (simp_all add: node_ok_in)
  obtain r f1 where f1: "Ingest ops fetch head ?f = Some (r, f1)"
    using ingest_total [of "spine_of ` B" ?f fetch head] start node by blast
  note l1 = ingest_logs [OF start node f1]
  have "\<exists>r' f2. (if too_deep r \<and> f_tipHeight f1 + word_of_nat (ix_ReorgDepth ix) < Height head
      then CatchUp ops fetch rf (Height head) f1 else Some (r, f1)) = Some (r', f2) \<and>
      f_holds sinv canon (spine_of ` B) f2 \<and> tip_logged f2 \<and> grows ?us f2"
  proof (cases "too_deep r \<and> f_tipHeight f1 + word_of_nat (ix_ReorgDepth ix) < Height head")
    case True
    obtain r' f2 where f2: "CatchUp ops fetch rf (Height head) f1 = Some (r', f2)"
      using catchUp_returns [OF conjunct1 [OF l1] node(1) node_ok_range [OF assms(2)]] by blast
    from catchUp_logs [OF l1 assms(2) f2] f2 True show ?thesis by simp
  next
    case False
    show ?thesis unfolding if_not_P [OF False] using l1 by blast
  qed
  then obtain r' f2 where f2: "(if too_deep r \<and> f_tipHeight f1 + word_of_nat (ix_ReorgDepth ix) < Height head
      then CatchUp ops fetch rf (Height head) f1 else Some (r, f1)) = Some (r', f2)"
    and l2: "f_holds sinv canon (spine_of ` B) f2" "tip_logged f2" "grows ?us f2"
    by blast
  have "update_counters (f_updates f2) (record_new ?f f2 (ix_counters ix))"
    using record_new_counters [OF _ l2(3)] assms(1) by (simp add: ix_holds_def)
  with f1 f2 l2 show ?thesis by (simp add: ix_ingest_def ix_holds_def)
qed

lemma catchUpIfBehind_holds:
  assumes "ix_holds sinv canon (spine_of ` B) ix" "node_ok B fetch rf"
  shows "\<exists>r ix'. catchUpIfBehind ops fetch rf latest ix = Some (r, ix') \<and> ix_holds sinv canon (spine_of ` B) ix'"
proof -
  let ?f = "ix_Follower ix" and ?us = "f_updates (ix_Follower ix)"
  have start: "f_holds sinv canon (spine_of ` B) ?f \<and> tip_logged ?f \<and> grows ?us ?f"
    using assms(1) by (simp add: ix_holds_def grows_def)
  show ?thesis
  proof (cases "\<exists>head. latest = Inr head \<and> snd (follower_Tip ?f) \<noteq> 0 \<and>
      \<not> Height head \<le> snd (follower_Tip ?f) + word_of_nat (ix_ReorgDepth ix)")
    case False
    then show ?thesis
      using assms(1) by (cases latest) (auto simp: catchUpIfBehind_def)
  next
    case True
    then obtain head where head: "latest = Inr head" "snd (follower_Tip ?f) \<noteq> 0"
      "\<not> Height head \<le> snd (follower_Tip ?f) + word_of_nat (ix_ReorgDepth ix)"
      by blast
    obtain r f2 where f2: "CatchUp ops fetch rf (Height head) ?f = Some (r, f2)"
      using catchUp_returns [OF conjunct1 [OF start] node_ok_in [OF assms(2)] node_ok_range [OF assms(2)]] by blast
    note l2 = catchUp_logs [OF start assms(2) f2]
    have "update_counters (f_updates f2) (record_new ?f f2 (ix_counters ix))"
      using record_new_counters [of ?f _ f2] l2 assms(1) by (simp add: ix_holds_def)
    moreover have "catchUpIfBehind ops fetch rf latest ix =
      Some (r, ix\<lparr>ix_Follower := f2, ix_counters := record_new ?f f2 (ix_counters ix)\<rparr>)"
      unfolding catchUpIfBehind_def using head f2 by (simp only: if_False) simp
    ultimately show ?thesis using l2 by (simp add: ix_holds_def)
  qed
qed

lemma ix_step_holds: "ix_step ops B ix ix' \<Longrightarrow> ix_holds sinv canon (spine_of ` B) ix \<Longrightarrow> ix_holds sinv canon (spine_of ` B) ix'"
proof (induction rule: ix_step.induct)
  case (head fetch rf head ix ix')
  with ix_ingest_holds [of B ix fetch rf head] show ?case by auto
next
  case (poll_failed ix e)
  then show ?case by (simp add: ix_holds_def)
qed

lemma ix_run_holds: "ix_run ops B ix ix' \<Longrightarrow> ix_holds sinv canon (spine_of ` B) ix \<Longrightarrow> ix_holds sinv canon (spine_of ` B) ix'"
proof (induction rule: ix_run.induct)
  case (start fetch rf latest ix ix')
  with catchUpIfBehind_holds [of B ix fetch rf latest] show ?case by auto
next
  case (step ix ix' ix'')
  with ix_step_holds show ?case by blast
qed

text \<open>
  A relation between log and store that every call of \<open>ApplyUpdate\<close> carries on, the indexer carries
  on through every run.
\<close>

lemma ingest_follows:
  assumes R: "tracks ops sinv canon R" and f: "f_holds sinv canon (spine_of ` B) f" "follows R B f"
    and node: "node_ok B fetch rf" "b \<in> B" and r: "Ingest ops fetch b f = Some (r, f')"
  shows "follows R B f'"
proof -
  have i: "sinv (f_store f)" using f(1) by (simp add: f_holds_def)
  have fit: "fits u (canon (f_store f))" if "plan_update fetch f b = Some (Inr u)" for u
    using that node by (intro holds_plan_fits [OF f(1) node_ok_in]) auto
  from r show ?thesis
  proof (cases rule: Ingest_cases)
    case same
    with f(2) show ?thesis by simp
  next
    case (refused u e)
    with R i f(2) show ?thesis by (auto simp: tracks_def follows_def)
  next
    case (committed u)
    have "set (Apply u) \<subseteq> B"
      by (rule plan_update_served [OF committed(1) node(2)]) (use node(1) in \<open>auto simp: node_ok_def\<close>)
    with R i f(2) fit [OF committed(1)] committed(2,3) show ?thesis by (auto simp: tracks_def follows_def)
  qed
qed

lemma catchUp_follows:
  assumes "tracks ops sinv canon R" "node_ok B fetch rf" "CatchUp ops fetch rf target f = Some (r, f')"
    and "f_holds sinv canon (spine_of ` B) f \<and> follows R B f"
  shows "f_holds sinv canon (spine_of ` B) f' \<and> follows R B f'"
proof (rule catchUp_keeps [where P = "\<lambda>f. f_holds sinv canon (spine_of ` B) f \<and> follows R B f", OF assms(3,4)])
  fix lo hi bs b f r f'
  assume "rf lo hi = Inr bs" "b \<in> set bs" and f: "f_holds sinv canon (spine_of ` B) f \<and> follows R B f"
    and i: "Ingest ops fetch b f = Some (r, f')"
  then have b: "b \<in> B" using assms(2) by (auto simp: node_ok_def)
  from ingest_holds [OF conjunct1 [OF f] node_ok_in [OF assms(2)] imageI [OF b] i]
    ingest_follows [OF assms(1) conjunct1 [OF f] conjunct2 [OF f] assms(2) b i]
  show "f_holds sinv canon (spine_of ` B) f' \<and> follows R B f'" by (rule conjI)
qed

lemma ix_ingest_follows:
  assumes R: "tracks ops sinv canon R" and f: "f_holds sinv canon (spine_of ` B) (ix_Follower ix)" "follows R B (ix_Follower ix)"
    and node: "node_ok B fetch rf" "head \<in> B" and ix': "ix_ingest ops fetch rf head ix = Some ix'"
  shows "follows R B (ix_Follower ix')"
proof -
  from ix' obtain r f1 where
    f1: "Ingest ops fetch head (ix_Follower ix) = Some (r, f1)" and
    f2: "ix_Follower ix' = f1 \<or> (\<exists>r'. CatchUp ops fetch rf (Height head) f1 = Some (r', ix_Follower ix'))"
    by (auto simp: ix_ingest_def split: option.splits if_splits)
  have "f_holds sinv canon (spine_of ` B) f1 \<and> follows R B f1"
    using ingest_holds [OF f(1) node_ok_in [OF node(1)] imageI [OF node(2)] f1]
      ingest_follows [OF R f node f1] by (rule conjI)
  with catchUp_follows [OF R node(1)] f2 show ?thesis by blast
qed

lemma catchUpIfBehind_follows:
  assumes R: "tracks ops sinv canon R" and f: "f_holds sinv canon (spine_of ` B) (ix_Follower ix)" "follows R B (ix_Follower ix)"
    and node: "node_ok B fetch rf" and ix': "catchUpIfBehind ops fetch rf latest ix = Some (r, ix')"
  shows "follows R B (ix_Follower ix')"
proof -
  from ix' consider "ix' = ix" | t where "CatchUp ops fetch rf t (ix_Follower ix) = Some (r, ix_Follower ix')"
    by (auto simp: catchUpIfBehind_def split: option.splits if_splits sum.splits)
  then show ?thesis
  proof cases
    case 1
    with f(2) show ?thesis by simp
  next
    case 2
    with catchUp_follows [OF R node 2] f show ?thesis by blast
  qed
qed

lemma ix_step_follows:
  assumes R: "tracks ops sinv canon R" and "ix_step ops B ix ix'" "ix_holds sinv canon (spine_of ` B) ix" "follows R B (ix_Follower ix)"
  shows "follows R B (ix_Follower ix')"
  using assms(2)
proof (cases rule: ix_step.cases)
  case (head fetch rf head)
  with ix_ingest_follows [OF R] assms(3,4) show ?thesis by (auto simp: ix_holds_def)
next
  case (poll_failed e)
  with assms(4) show ?thesis by simp
qed

lemma ix_run_follows:
  assumes "tracks ops sinv canon R"
  shows "ix_run ops B ix ix' \<Longrightarrow> ix_holds sinv canon (spine_of ` B) ix \<Longrightarrow> follows R B (ix_Follower ix) \<Longrightarrow>
    follows R B (ix_Follower ix')"
proof (induction rule: ix_run.induct)
  case (start fetch rf latest ix ix')
  with catchUpIfBehind_follows [OF assms] show ?case by (auto simp: ix_holds_def)
next
  case (step ix ix' ix'')
  with ix_step_follows [OF assms step.hyps(2) ix_run_holds [OF step.hyps(1)]] show ?case by blast
qed

lemma ix_new_holds:
  assumes "f_holds sinv canon N f" "f_updates f = []"
  shows "ix_holds sinv canon N (NewIndexer f depth)"
  using assms by (simp add: ix_holds_def NewIndexer_def tip_logged_def update_counters_def)

end

end
