(* ===== verification/MemoryStore.thy ===== *)
theory MemoryStore
  imports Indexer
begin

text \<open>
  \<open>internal/store/memory.go\<close>: the in-process store. Its state is the map from hashes to
  blocks and the tip hash (the mutex serialises the methods, which are atomic here). The
  theory interprets \<open>reliable_store\<close> on it: \<open>mem_canon\<close> walks the parents from the tip, and
  \<open>mem_inv\<close> says that the map holds exactly the blocks of that walk, which form a good chain.
\<close>

record memory =
  m_blocks :: "string \<rightharpoonup> block"
  m_tip :: string

definition NewMemory :: memory where
  "NewMemory = \<lparr>m_blocks = Map.empty, m_tip = ''''\<rparr>"

definition mem_Tip :: "memory \<Rightarrow> err + (block \<times> bool)" where
  "mem_Tip m =
     (if m_tip m = '''' then Inr (zero_block, False)
      else Inr (case m_blocks m (m_tip m) of Some b \<Rightarrow> b | None \<Rightarrow> zero_block, True))"

fun mem_walk :: "(string \<rightharpoonup> block) \<Rightarrow> nat \<Rightarrow> string \<Rightarrow> block list" where
  "mem_walk blocks 0 cur = []"
| "mem_walk blocks (Suc n) cur =
     (if cur = '''' then []
      else (case blocks cur of
              None \<Rightarrow> []
            | Some b \<Rightarrow> b # mem_walk blocks n (ParentHash b)))"

definition mem_RecentBlocks :: "nat \<Rightarrow> memory \<Rightarrow> err + block list" where
  "mem_RecentBlocks n m = Inr (mem_walk (m_blocks m) n (m_tip m))"

definition mem_ApplyUpdate :: "chain_update \<Rightarrow> memory \<Rightarrow> err option \<times> memory" where
  "mem_ApplyUpdate u m =
     (case rollback_ok (m_tip m) (Rollback u) of
        Inl e \<Rightarrow> (Some e, m)
      | Inr cur \<Rightarrow>
          if Apply u = [] then (Some (Msg ''update applies no blocks''), m)
          else if m_tip m \<noteq> '''' \<and> ParentHash (hd (Apply u)) \<noteq> cur
          then (Some (Msg (''apply block '' @ Hash (hd (Apply u)) @ '' does not connect to '' @ cur)), m)
          else (case contiguous_ok (Apply u) of
                  Inl e \<Rightarrow> (Some e, m)
                | Inr _ \<Rightarrow>
                    (None,
                     \<lparr>m_blocks =
                        fold (\<lambda>b bs. bs(Hash b \<mapsto> b)) (Apply u)
                          (fold (\<lambda>rb bs. bs(Hash rb := None)) (Rollback u) (m_blocks m)),
                      m_tip = Hash (last (Apply u))\<rparr>)))"

definition memory_ops :: "memory store_ops" where
  "memory_ops = \<lparr>st_Tip = mem_Tip, st_RecentBlocks = mem_RecentBlocks,
     st_ApplyUpdate = mem_ApplyUpdate\<rparr>"

lemma memory_ops_sel [simp]:
  "st_Tip memory_ops = mem_Tip" "st_RecentBlocks memory_ops = mem_RecentBlocks"
  "st_ApplyUpdate memory_ops = mem_ApplyUpdate"
  by (simp_all add: memory_ops_def)

section \<open>What the map holds\<close>

abbreviation by_hash :: "block list \<Rightarrow> (string \<times> block) list" where
  "by_hash bs \<equiv> keyed Hash bs"

definition mem_holds :: "block list \<Rightarrow> memory \<Rightarrow> bool" where
  "mem_holds cs m \<longleftrightarrow>
     good_chain (map spine_of cs) \<and> m_tip m = tip_hash (map spine_of cs) \<and>
     m_blocks m = map_of (by_hash cs)"

definition mem_inv :: "memory \<Rightarrow> bool" where
  "mem_inv m \<longleftrightarrow> (\<exists>cs. mem_holds cs m)"

definition mem_canon :: "memory \<Rightarrow> spine list" where
  "mem_canon m = map spine_of (mem_walk (m_blocks m) (card (dom (m_blocks m))) (m_tip m))"

lemma map_Hash_spine: "map sp_hash (map spine_of bs) = map Hash bs"
  by simp

lemma mem_walk_chain:
  assumes "linked (map spine_of cs)" "'''' \<notin> Hash ` set cs"
    and "\<And>b. b \<in> set cs \<Longrightarrow> bl (Hash b) = Some b"
    and "cs \<noteq> [] \<Longrightarrow> bl (ParentHash (last cs)) = None"
  shows "mem_walk bl n (tip_hash (map spine_of cs)) = take n cs"
  using assms
proof (induction cs arbitrary: n)
  case Nil
  show ?case by (cases n) (simp_all add: tip_hash_def)
next
  case (Cons c cs)
  show ?case
  proof (cases n)
    case 0
    then show ?thesis by simp
  next
    case (Suc k)
    have "mem_walk bl k (ParentHash c) = take k cs"
    proof (cases cs)
      case Nil
      with Cons.prems(4) show ?thesis by (cases k) auto
    next
      case (Cons d ds)
      then have "ParentHash c = tip_hash (map spine_of cs)"
        using Cons.prems(1) by (simp add: tip_hash_def)
      moreover have "mem_walk bl k (tip_hash (map spine_of cs)) = take k cs"
        using Cons.prems Cons by (intro Cons.IH) (auto simp: linked_Cons)
      ultimately show ?thesis by simp
    qed
    then show ?thesis
      using Cons.prems(2,3) Suc by (auto simp: tip_hash_def)
  qed
qed

lemma mem_holds_walk:
  assumes "mem_holds cs m"
  shows "mem_walk (m_blocks m) n (m_tip m) = take n cs"
proof -
  from assms have g: "good_chain (map spine_of cs)" and b: "m_blocks m = map_of (by_hash cs)"
    and t: "m_tip m = tip_hash (map spine_of cs)"
    by (auto simp: mem_holds_def)
  from g have d: "distinct (map Hash cs)" "'''' \<notin> Hash ` set cs" "linked (map spine_of cs)"
    by (auto simp: good_chain_def rooted_def image_image comp_def)
  from g have "cs \<noteq> [] \<Longrightarrow> ParentHash (last cs) \<notin> Hash ` set cs"
    by (auto simp: good_chain_def rooted_def image_image last_map)
  with d show ?thesis
    unfolding b t by (intro mem_walk_chain) (auto simp: map_of_keyed_Some map_of_keyed_None)
qed

lemma mem_holds_canon: "mem_holds cs m \<Longrightarrow> mem_canon m = map spine_of cs"
proof -
  assume h: "mem_holds cs m"
  then have "distinct (map Hash cs)"
    by (auto simp: mem_holds_def good_chain_def rooted_def comp_def)
  then have "card (Hash ` set cs) = length cs"
    using distinct_card [of "map Hash cs"] by simp
  with h have "card (dom (m_blocks m)) = length cs"
    by (simp add: mem_holds_def dom_keyed)
  with mem_holds_walk [OF h] show ?thesis by (simp add: mem_canon_def)
qed

lemma mem_inv_new: "mem_inv NewMemory"
  by (auto simp: mem_inv_def mem_holds_def NewMemory_def tip_hash_def intro: exI [of _ "[]"])

lemma mem_canon_new: "mem_canon NewMemory = []"
  by (simp add: mem_canon_def NewMemory_def)

section \<open>The operations meet the contract\<close>

lemma mem_holds_moved:
  assumes "mem_holds cs m" "fits u (map spine_of cs)" "connects u (map spine_of cs)"
    and "st_ApplyUpdate memory_ops u m = (None, m')"
  shows "mem_holds (rev (Apply u) @ drop (length (Rollback u)) cs) m'"
proof -
  let ?ds = "drop (length (Rollback u)) cs"
  have sp: "map spine_of (rev (Apply u) @ ?ds) = moved u (map spine_of cs)"
    by (simp add: moved_def applied_def rev_map drop_map)
  have d: "distinct (map Hash cs)"
    using assms(1) by (auto simp: mem_holds_def good_chain_def rooted_def comp_def)
  have k: "map Hash (Rollback u) = map Hash (take (length (Rollback u)) cs)"
    using assms(3) unfolding connects_def rolled_def
    by (metis (no_types, lifting) map_Hash_spine take_map)
  have "m_blocks m' = map_of (by_hash (rev (Apply u)) @ by_hash ?ds)"
    using assms(1,4) fold_delete_keyed [OF d k]
    by (auto simp: memory_ops_def mem_ApplyUpdate_def mem_holds_def fold_insert_keyed
        split: sum.splits if_splits)
  moreover have "m_tip m' = tip_hash (moved u (map spine_of cs))"
    using assms(4) moved_hd [of u "map spine_of cs"]
    by (auto simp: memory_ops_def mem_ApplyUpdate_def tip_hash_def split: sum.splits if_splits)
  moreover have "good_chain (moved u (map spine_of cs))"
    using assms(1-3) by (intro connects_good) (auto simp: mem_holds_def)
  ultimately show ?thesis unfolding mem_holds_def sp by simp
qed

lemma tip_hash_Nil_iff: "good_chain cs \<Longrightarrow> tip_hash cs = '''' \<longleftrightarrow> cs = []"
  by (cases cs) (auto simp: tip_hash_def good_chain_def rooted_def)

text \<open>The checks accept exactly the updates that connect to the chain.\<close>

lemma mem_ApplyUpdate_iff:
  assumes "mem_holds cs m" "fits u (map spine_of cs)"
  shows "fst (mem_ApplyUpdate u m) = None \<longleftrightarrow> connects u (map spine_of cs)"
proof -
  let ?cs = "map spine_of cs" and ?k = "length (Rollback u)"
  have g: "good_chain ?cs" and t: "m_tip m = tip_hash ?cs"
    using assms(1) by (auto simp: mem_holds_def)
  have sub: "set (map spine_of (Rollback u)) \<subseteq> set ?cs"
    using assms(2) by (simp add: fits_def rolled_def)
  show ?thesis
  proof (cases "rollback_ok (m_tip m) (Rollback u)")
    case (Inl e)
    have "\<not> connects u ?cs"
      using rollback_ok_accepts [of ?cs "Rollback u"] g t Inl
      by (auto simp: connects_def rolled_def good_chain_def)
    with Inl show ?thesis by (simp add: mem_ApplyUpdate_def)
  next
    case (Inr cur)
    have pre: "rolled u = take ?k ?cs" and cur: "cur = base_hash ?k ?cs"
      using rollback_ok_prefix [OF g sub] Inr t by (auto simp: rolled_def)
    show ?thesis
    proof (cases "Apply u = []")
      case True
      with Inr show ?thesis by (simp add: mem_ApplyUpdate_def connects_def)
    next
      case False
      with Inr pre cur t tip_hash_Nil_iff [OF g] contiguous_ok_cases [of "Apply u"] show ?thesis
        by (auto simp: mem_ApplyUpdate_def connects_def applied_def split: sum.splits)
    qed
  qed
qed

lemma mem_ApplyUpdate_failed: "mem_ApplyUpdate u m = (Some e, m') \<Longrightarrow> m' = m"
  by (auto simp: mem_ApplyUpdate_def split: sum.splits if_splits)

lemma mem_apply_done:
  assumes "mem_inv m" "fits u (mem_canon m)" "mem_ApplyUpdate u m = (None, m')"
  shows "mem_inv m' \<and> mem_canon m' = moved u (mem_canon m) \<and> connects u (mem_canon m)"
proof -
  from assms(1) obtain cs where h: "mem_holds cs m" by (auto simp: mem_inv_def)
  note c = mem_holds_canon [OF h]
  have con: "connects u (map spine_of cs)"
    using mem_ApplyUpdate_iff [OF h, of u] assms(2,3) c by simp
  have h': "mem_holds (rev (Apply u) @ drop (length (Rollback u)) cs) m'"
    using mem_holds_moved [OF h _ con] assms(2,3) c by (simp add: memory_ops_def)
  from mem_holds_canon [OF h'] have "mem_canon m' = moved u (mem_canon m)"
    by (simp add: c moved_def applied_def rev_map drop_map)
  with h' con c show ?thesis by (auto simp: mem_inv_def)
qed

lemma mem_apply_accepts:
  assumes "mem_inv m" "fits u (mem_canon m)" "connects u (mem_canon m)"
  shows "\<exists>m'. mem_ApplyUpdate u m = (None, m')"
proof -
  from assms(1) obtain cs where h: "mem_holds cs m" by (auto simp: mem_inv_def)
  with mem_ApplyUpdate_iff [OF h, of u] assms(2,3) mem_holds_canon [OF h]
  have "fst (mem_ApplyUpdate u m) = None" by simp
  then show ?thesis by (metis prod.collapse)
qed

lemma mem_tip_law:
  assumes "mem_inv m" "mem_Tip m = Inr (b, found)"
  shows "found = (mem_canon m \<noteq> []) \<and> (mem_canon m \<noteq> [] \<longrightarrow> spine_of b = hd (mem_canon m))"
proof -
  from assms(1) obtain cs where h: "mem_holds cs m" by (auto simp: mem_inv_def)
  then have t: "m_tip m = '''' \<longleftrightarrow> cs = []" "m_tip m = tip_hash (map spine_of cs)"
    using tip_hash_Nil_iff [of "map spine_of cs"] by (auto simp: mem_holds_def)
  have "cs \<noteq> [] \<Longrightarrow> m_blocks m (m_tip m) = Some (hd cs)"
    using h t(2) by (cases cs) (auto simp: mem_holds_def tip_hash_def)
  with assms(2) t mem_holds_canon [OF h] show ?thesis
    by (auto simp: mem_Tip_def hd_map split: if_splits)
qed

lemma mem_recent_law:
  assumes "mem_inv m" "mem_RecentBlocks n m = Inr bs"
  shows "map spine_of bs = take n (mem_canon m)"
proof -
  from assms(1) obtain cs where h: "mem_holds cs m" by (auto simp: mem_inv_def)
  with assms(2) mem_holds_canon [OF h] mem_holds_walk [OF h] show ?thesis
    by (auto simp: mem_RecentBlocks_def take_map)
qed

lemma mem_canon_good: "mem_inv m \<Longrightarrow> good_chain (mem_canon m)"
  by (auto simp: mem_inv_def mem_holds_canon) (auto simp: mem_holds_def)

interpretation mem: reliable_store memory_ops mem_inv mem_canon
proof (unfold_locales, unfold memory_ops_sel)
  show "mem_inv s \<Longrightarrow> good_chain (mem_canon s)" for s
    by (rule mem_canon_good)
  show "mem_inv s \<Longrightarrow> mem_Tip s = Inr (b, found) \<Longrightarrow>
    found = (mem_canon s \<noteq> []) \<and> (mem_canon s \<noteq> [] \<longrightarrow> spine_of b = hd (mem_canon s))" for s b found
    by (rule mem_tip_law)
  show "mem_inv s \<Longrightarrow> 0 < n \<Longrightarrow> mem_RecentBlocks n s = Inr bs \<Longrightarrow>
    map spine_of bs = take n (mem_canon s)" for s n bs
    by (rule mem_recent_law)
  show "mem_inv s \<Longrightarrow> fits u (mem_canon s) \<Longrightarrow> mem_ApplyUpdate u s = (None, s') \<Longrightarrow>
    mem_inv s' \<and> mem_canon s' = moved u (mem_canon s) \<and> connects u (mem_canon s)" for s u s'
    by (rule mem_apply_done)
  show "mem_inv s \<Longrightarrow> mem_ApplyUpdate u s = (Some e, s') \<Longrightarrow>
    mem_inv s' \<and> mem_canon s' = mem_canon s" for s u e s'
    by (drule mem_ApplyUpdate_failed) simp
  show "mem_inv s \<Longrightarrow> fits u (mem_canon s) \<Longrightarrow> connects u (mem_canon s) \<Longrightarrow>
    \<exists>s'. mem_ApplyUpdate u s = (None, s')" for s u
    by (rule mem_apply_accepts)
  show "mem_inv s \<Longrightarrow> 0 < n \<Longrightarrow> \<exists>bs. mem_RecentBlocks n s = Inr bs" for s n
    by (simp add: mem_RecentBlocks_def)
qed

end
