(* ===== verification/RpcBody.thy ===== *)
theory RpcBody
  imports ChainTypes
begin

text \<open>
  \<open>internal/rpcclient/body.go\<close>: the raw transactions of a block body and their JSON decoding.
  \<open>HexU64_UnmarshalJSON\<close>, \<open>hexBigInt_UnmarshalJSON\<close> and \<open>hexBytes_UnmarshalJSON\<close> are the
  custom decoders of the quantities; the \<open>_member\<close> functions are the structs' field tables;
  \<open>ParseBody\<close> takes the flat RPC shape and falls back to the nested WebSocket shape. Pointer
  fields are options; a nil and an empty slice are the same list, because the code only ranges
  over them, except in \<open>ParseBody\<close>, which tells them apart before it drops the difference.
\<close>

datatype hexBigInt = HexBigInt (V: "int option")

record raw_outpoint =
  op_TxHash :: string
  op_Index :: u64

record raw_txin =
  in_PreviousOutPoint :: raw_outpoint
  in_PubKey :: string

record raw_txout =
  out_Address :: string
  out_Denomination :: u64
  out_Lock :: "hexBigInt option"

record raw_tx =
  tx_Hash :: string
  tx_Type :: u64
  tx_EtxType :: "u64 option"
  tx_To :: "string option"
  tx_Value :: "hexBigInt option"
  tx_Gas :: "u64 option"
  tx_Input :: "bytes option"
  tx_Inputs :: "raw_txin list"
  tx_Outputs :: "raw_txout list"

record block_body =
  Transactions :: "raw_tx list"
  OutboundETXs :: "raw_tx list"

section \<open>Hex quantities\<close>

definition HexU64_UnmarshalJSON :: "json \<Rightarrow> err + u64" where
  "HexU64_UnmarshalJSON j =
     bindE (res_of (ParseUint (trim0x (trim_quotes (token_text j))) 16 64))
       (\<lambda>v. Inr (word_of_nat v))"

definition hexBigInt_UnmarshalJSON :: "json \<Rightarrow> err + hexBigInt" where
  "hexBigInt_UnmarshalJSON j =
     (case int_SetString 16 (trim0x (trim_quotes (token_text j))) of
        None \<Rightarrow> Inl (Msg ''invalid hex big int'')
      | Some v \<Rightarrow> Inr (HexBigInt (Some v)))"

fun hex_pairs :: "string \<Rightarrow> err + bytes" where
  "hex_pairs (a # b # s) =
     bindE (wrapE ''hex decode'' (res_of (ParseUint [a, b] 16 8)))
       (\<lambda>v. bindE (hex_pairs s) (\<lambda>r. Inr (word_of_nat v # r)))"
| "hex_pairs _ = Inr []"

definition hexBytes_UnmarshalJSON :: "json \<Rightarrow> err + bytes" where
  "hexBytes_UnmarshalJSON j =
     (let s = trim0x (trim_quotes (token_text j)) in
      if s = [] \<or> s = ''0'' then Inr []
      else hex_pairs (if odd (length s) then CHR ''0'' # s else s))"

section \<open>Struct fields\<close>

definition zero_outpoint :: raw_outpoint where
  "zero_outpoint = \<lparr>op_TxHash = [], op_Index = 0\<rparr>"

definition zero_txin :: raw_txin where
  "zero_txin = \<lparr>in_PreviousOutPoint = zero_outpoint, in_PubKey = []\<rparr>"

definition zero_txout :: raw_txout where
  "zero_txout = \<lparr>out_Address = [], out_Denomination = 0, out_Lock = None\<rparr>"

definition zero_tx :: raw_tx where
  "zero_tx = \<lparr>tx_Hash = [], tx_Type = 0, tx_EtxType = None, tx_To = None, tx_Value = None,
     tx_Gas = None, tx_Input = None, tx_Inputs = [], tx_Outputs = []\<rparr>"

definition slice_list :: "'a list option \<Rightarrow> 'a list" where
  "slice_list s = (case s of None \<Rightarrow> [] | Some xs \<Rightarrow> xs)"

definition outpoint_member :: "string \<times> json \<Rightarrow> raw_outpoint \<Rightarrow> err + raw_outpoint" where
  "outpoint_member m r = (case m of (k, j) \<Rightarrow>
     if key_is ''txHash'' k then bindE (un_string j (op_TxHash r)) (\<lambda>x. Inr (r\<lparr>op_TxHash := x\<rparr>))
     else if key_is ''index'' k then bindE (HexU64_UnmarshalJSON j) (\<lambda>x. Inr (r\<lparr>op_Index := x\<rparr>))
     else Inr r)"

definition txin_member :: "string \<times> json \<Rightarrow> raw_txin \<Rightarrow> err + raw_txin" where
  "txin_member m r = (case m of (k, j) \<Rightarrow>
     if key_is ''previousOutPoint'' k
     then bindE (un_struct outpoint_member j (in_PreviousOutPoint r))
            (\<lambda>x. Inr (r\<lparr>in_PreviousOutPoint := x\<rparr>))
     else if key_is ''pubkey'' k then bindE (un_string j (in_PubKey r)) (\<lambda>x. Inr (r\<lparr>in_PubKey := x\<rparr>))
     else Inr r)"

definition txout_member :: "string \<times> json \<Rightarrow> raw_txout \<Rightarrow> err + raw_txout" where
  "txout_member m r = (case m of (k, j) \<Rightarrow>
     if key_is ''address'' k then bindE (un_string j (out_Address r)) (\<lambda>x. Inr (r\<lparr>out_Address := x\<rparr>))
     else if key_is ''denomination'' k
     then bindE (HexU64_UnmarshalJSON j) (\<lambda>x. Inr (r\<lparr>out_Denomination := x\<rparr>))
     else if key_is ''lock'' k
     then bindE (un_ptr hexBigInt_UnmarshalJSON j) (\<lambda>x. Inr (r\<lparr>out_Lock := x\<rparr>))
     else Inr r)"

definition tx_member :: "string \<times> json \<Rightarrow> raw_tx \<Rightarrow> err + raw_tx" where
  "tx_member m r = (case m of (k, j) \<Rightarrow>
     if key_is ''hash'' k then bindE (un_string j (tx_Hash r)) (\<lambda>x. Inr (r\<lparr>tx_Hash := x\<rparr>))
     else if key_is ''type'' k then bindE (HexU64_UnmarshalJSON j) (\<lambda>x. Inr (r\<lparr>tx_Type := x\<rparr>))
     else if key_is ''etxType'' k
     then bindE (un_ptr HexU64_UnmarshalJSON j) (\<lambda>x. Inr (r\<lparr>tx_EtxType := x\<rparr>))
     else if key_is ''to'' k
     then bindE (un_ptr (\<lambda>j. un_string j []) j) (\<lambda>x. Inr (r\<lparr>tx_To := x\<rparr>))
     else if key_is ''value'' k
     then bindE (un_ptr hexBigInt_UnmarshalJSON j) (\<lambda>x. Inr (r\<lparr>tx_Value := x\<rparr>))
     else if key_is ''gas'' k
     then bindE (un_ptr HexU64_UnmarshalJSON j) (\<lambda>x. Inr (r\<lparr>tx_Gas := x\<rparr>))
     else if key_is ''input'' k
     then bindE (un_ptr hexBytes_UnmarshalJSON j) (\<lambda>x. Inr (r\<lparr>tx_Input := x\<rparr>))
     else if key_is ''inputs'' k
     then bindE (un_slice (\<lambda>j. un_struct txin_member j zero_txin) j)
            (\<lambda>x. Inr (r\<lparr>tx_Inputs := slice_list x\<rparr>))
     else if key_is ''outputs'' k
     then bindE (un_slice (\<lambda>j. un_struct txout_member j zero_txout) j)
            (\<lambda>x. Inr (r\<lparr>tx_Outputs := slice_list x\<rparr>))
     else Inr r)"

section \<open>Block bodies\<close>

type_synonym raw_lists = "raw_tx list option \<times> raw_tx list option"

definition lists_member :: "string \<times> json \<Rightarrow> raw_lists \<Rightarrow> err + raw_lists" where
  "lists_member m r = (case m of (k, j) \<Rightarrow>
     if key_is ''transactions'' k
     then bindE (un_slice (\<lambda>j. un_struct tx_member j zero_tx) j) (\<lambda>x. Inr (x, snd r))
     else if key_is ''outboundEtxs'' k
     then bindE (un_slice (\<lambda>j. un_struct tx_member j zero_tx) j) (\<lambda>x. Inr (fst r, x))
     else Inr r)"

definition ws_member :: "string \<times> json \<Rightarrow> raw_lists \<Rightarrow> err + raw_lists" where
  "ws_member m r = (case m of (k, j) \<Rightarrow>
     if key_is ''woBody'' k then un_struct lists_member j r else Inr r)"

definition body_of :: "raw_lists \<Rightarrow> block_body" where
  "body_of r = \<lparr>Transactions = slice_list (fst r), OutboundETXs = slice_list (snd r)\<rparr>"

definition ParseBody :: "json option \<Rightarrow> err + block_body" where
  "ParseBody raw =
     (case raw of
        None \<Rightarrow> Inl (Wrap ''parse block body'' (Ext ''unexpected end of JSON input''))
      | Some j \<Rightarrow>
          bindE (wrapE ''parse block body'' (un_struct lists_member j (None, None)))
            (\<lambda>flat. if fst flat \<noteq> None \<or> snd flat \<noteq> None then Inr (body_of flat)
                    else bindE (wrapE ''parse ws block body'' (un_struct ws_member j (None, None)))
                           (\<lambda>ws. Inr (body_of ws))))"

section \<open>What the decoders accept\<close>

lemma digit_char_not_quote: "n < 36 \<Longrightarrow> digit_char n \<noteq> CHR 0x22"
  using of_char_digit_char [of n] by (auto split: if_splits)

lemma FormatUint_no_quote:
  "2 \<le> base \<Longrightarrow> base \<le> 36 \<Longrightarrow> CHR 0x22 \<notin> set (FormatUint base n)"
proof (induction base n rule: FormatUint.induct)
  case (1 base n)
  have "n mod base < 36" using "1.prems" by (metis (no_types) less_le_trans mod_less_divisor not_numeral_le_zero gr0I)
  then show ?case using "1" by (subst FormatUint.simps) (auto dest: digit_char_not_quote)
qed

lemma trim_quotes_0x:
  "CHR 0x22 \<notin> set s \<Longrightarrow>
   trim0x (trim_quotes (token_text (JStr (CHR ''0'' # CHR ''x'' # s)))) = s"
  using trim_quotes_token [of "CHR ''0'' # CHR ''x'' # s"] by simp

lemma HexU64_round_trip:
  "HexU64_UnmarshalJSON (JStr (''0x'' @ FormatUint 16 (unat v))) = Inr v"
proof -
  have "ParseUint (FormatUint 16 (unat v)) 16 64 = (unat v, None)"
    by (rule ParseUint_FormatUint) simp_all
  then show ?thesis
    by (simp add: HexU64_UnmarshalJSON_def trim_quotes_0x FormatUint_no_quote res_of_def
        del: token_text.simps)
qed

lemma ParseUint_hex_pair:
  "n < 16 \<Longrightarrow> m < 16 \<Longrightarrow> ParseUint [digit_char n, digit_char m] 16 8 = (n * 16 + m, None)"
  by (simp add: ParseUint_def)

lemma hex_pairs_Encode: "hex_pairs (hex_EncodeToString bs) = Inr bs"
proof (induction bs)
  case (Cons b bs)
  have "ParseUint [digit_char (unat b div 16), digit_char (unat b mod 16)] 16 8 = (unat b, None)"
    using ParseUint_hex_pair [of "unat b div 16" "unat b mod 16"] unat_u8_div16 by simp
  with Cons show ?case by (simp add: res_of_def)
qed simp

lemma hex_Encode_no_quote: "CHR 0x22 \<notin> set (hex_EncodeToString bs)"
proof (induction bs)
  case (Cons b bs)
  have "unat b div 16 < 36" "unat b mod 16 < 36" using unat_u8_div16 [of b] by auto
  with Cons digit_char_not_quote show ?case by fastforce
qed simp

lemma hexBytes_round_trip:
  "hexBytes_UnmarshalJSON (JStr (''0x'' @ hex_EncodeToString bs)) = Inr bs"
proof -
  have t: "trim0x (trim_quotes (token_text (JStr (''0x'' @ hex_EncodeToString bs)))) = hex_EncodeToString bs"
    using trim_quotes_0x [OF hex_Encode_no_quote] by simp
  have e: "even (length (hex_EncodeToString bs))" by simp
  then have "hex_EncodeToString bs \<noteq> ''0''" by (metis One_nat_def list.size(3) list.size(4) odd_one add_0)
  moreover have "hex_EncodeToString bs = [] \<longleftrightarrow> bs = []" by (cases bs) auto
  ultimately show ?thesis
    using e hex_pairs_Encode [of bs] unfolding hexBytes_UnmarshalJSON_def t Let_def by auto
qed

end
