(* ===== verification/RpcBlocks.thy ===== *)
theory RpcBlocks
  imports RpcBody
begin

text \<open>
  \<open>internal/rpcclient/blocks.go\<close> and the block parser of \<open>ws.go\<close>: the spine of a block out of
  its JSON, in the flat RPC shape (\<open>ParseBlock\<close>) and the WebSocket shape (\<open>ParseWSBlock\<close>), and
  the fetches over the JSON-RPC client (\<open>BlockByNumber\<close>, \<open>LatestBlock\<close>, \<open>BlockByHash\<close>,
  \<open>BlocksByRange\<close>). The client's transport is the parameter \<open>callOne\<close> or \<open>call\<close>.
  \<open>big.Int.SetString\<close> leaves an undefined value behind when it fails, which both parsers ignore:
  that value is the parameter \<open>undef\<close>. \<open>sort.Slice\<close> is not stable; the model's sort is, which
  only fixes the order of blocks of equal height.
\<close>

record spine_json =
  sj_Hash :: string
  sj_WoHash :: string
  sj_ParentHash :: string
  sj_Number :: string
  sj_Timestamp :: string
  sj_ExchangeRate :: string

definition zero_spine_json :: spine_json where
  "zero_spine_json = \<lparr>sj_Hash = [], sj_WoHash = [], sj_ParentHash = [], sj_Number = [],
     sj_Timestamp = [], sj_ExchangeRate = []\<rparr>"

definition woHeader_member :: "string \<times> json \<Rightarrow> spine_json \<Rightarrow> err + spine_json" where
  "woHeader_member m r = (case m of (k, j) \<Rightarrow>
     if key_is ''hash'' k then bindE (un_string j (sj_WoHash r)) (\<lambda>x. Inr (r\<lparr>sj_WoHash := x\<rparr>))
     else if key_is ''parentHash'' k
     then bindE (un_string j (sj_ParentHash r)) (\<lambda>x. Inr (r\<lparr>sj_ParentHash := x\<rparr>))
     else if key_is ''number'' k
     then bindE (un_string j (sj_Number r)) (\<lambda>x. Inr (r\<lparr>sj_Number := x\<rparr>))
     else if key_is ''timestamp'' k
     then bindE (un_string j (sj_Timestamp r)) (\<lambda>x. Inr (r\<lparr>sj_Timestamp := x\<rparr>))
     else Inr r)"

definition header_member :: "string \<times> json \<Rightarrow> spine_json \<Rightarrow> err + spine_json" where
  "header_member m r = (case m of (k, j) \<Rightarrow>
     if key_is ''exchangeRate'' k
     then bindE (un_string j (sj_ExchangeRate r)) (\<lambda>x. Inr (r\<lparr>sj_ExchangeRate := x\<rparr>))
     else Inr r)"

definition wsSpine_member :: "string \<times> json \<Rightarrow> spine_json \<Rightarrow> err + spine_json" where
  "wsSpine_member m r = (case m of (k, j) \<Rightarrow>
     if key_is ''woHeader'' k then un_struct woHeader_member j r
     else if key_is ''header'' k then un_struct header_member j r
     else Inr r)"

definition spine_member :: "string \<times> json \<Rightarrow> spine_json \<Rightarrow> err + spine_json" where
  "spine_member m r = (case m of (k, j) \<Rightarrow>
     if key_is ''hash'' k then bindE (un_string j (sj_Hash r)) (\<lambda>x. Inr (r\<lparr>sj_Hash := x\<rparr>))
     else if key_is ''woHeader'' k then un_struct woHeader_member j r
     else if key_is ''header'' k then un_struct header_member j r
     else Inr r)"

text \<open>\<open>ts, _ := strconv.ParseUint(...)\<close>: the value \<open>strconv\<close> returns, whatever its error.\<close>

definition parse_timestamp :: "string \<Rightarrow> u64" where
  "parse_timestamp s = word_of_nat (fst (ParseUint (trim0x s) 16 64))"

definition parse_rate :: "(string \<Rightarrow> int) \<Rightarrow> string \<Rightarrow> int option" where
  "parse_rate undef s =
     (let hex = trim0x s in
      if hex = [] then None
      else Some (case int_SetString 16 hex of Some v \<Rightarrow> v | None \<Rightarrow> undef hex))"

definition ParseBlock :: "(string \<Rightarrow> int) \<Rightarrow> json option \<Rightarrow> err + block" where
  "ParseBlock undef raw =
     bindE (wrapE ''parse block spine''
              (case raw of None \<Rightarrow> Inl (Ext ''unexpected end of JSON input'')
               | Some j \<Rightarrow> un_struct spine_member j zero_spine_json))
       (\<lambda>s. let hash = (if sj_Hash s = [] then sj_WoHash s else sj_Hash s) in
          if hash = [] \<or> sj_ParentHash s = [] \<or> sj_Number s = []
          then Inl (Msg ''block JSON missing spine fields'')
          else bindE (wrapE ''parse block number'' (res_of (ParseUint (trim0x (sj_Number s)) 16 64)))
                 (\<lambda>height. Inr \<lparr>Height = word_of_nat height, Hash = hash, ParentHash = sj_ParentHash s,
                    Timestamp = parse_timestamp (sj_Timestamp s),
                    ExchangeRate = parse_rate undef (sj_ExchangeRate s), Raw = raw\<rparr>))"

definition ParseWSBlock :: "(string \<Rightarrow> int) \<Rightarrow> json option \<Rightarrow> err + block" where
  "ParseWSBlock undef raw =
     bindE (wrapE ''parse ws block''
              (case raw of None \<Rightarrow> Inl (Ext ''unexpected end of JSON input'')
               | Some j \<Rightarrow> un_struct wsSpine_member j zero_spine_json))
       (\<lambda>s. if sj_WoHash s = [] \<or> sj_ParentHash s = [] \<or> sj_Number s = []
          then Inl (Msg ''ws payload missing woHeader spine fields'')
          else bindE (wrapE ''parse ws block number'' (res_of (ParseUint (trim0x (sj_Number s)) 16 64)))
                 (\<lambda>height. Inr \<lparr>Height = word_of_nat height, Hash = sj_WoHash s,
                    ParentHash = sj_ParentHash s,
                    Timestamp = parse_timestamp (sj_Timestamp s),
                    ExchangeRate = parse_rate undef (sj_ExchangeRate s), Raw = raw\<rparr>))"

section \<open>Fetching blocks\<close>

text \<open>A parameter of a JSON-RPC request: a string or a flag.\<close>

datatype rpc_param = PStr string | PBool bool

definition hex_quantity :: "u64 \<Rightarrow> string" where
  "hex_quantity h = ''0x'' @ FormatUint 16 (unat h)"

definition BlockByNumber ::
  "(string \<Rightarrow> int) \<Rightarrow> (string \<Rightarrow> rpc_param list \<Rightarrow> err + json option) \<Rightarrow> u64 \<Rightarrow> err + block option" where
  "BlockByNumber undef callOne height =
     bindE (callOne ''quai_getBlockByNumber'' [PStr (hex_quantity height), PBool True])
       (\<lambda>raw. if raw = Some JNull then Inr None
              else bindE (ParseBlock undef raw) (\<lambda>b. Inr (Some b)))"

definition LatestBlock ::
  "(string \<Rightarrow> int) \<Rightarrow> (string \<Rightarrow> rpc_param list \<Rightarrow> err + json option) \<Rightarrow> err + block" where
  "LatestBlock undef callOne =
     bindE (callOne ''quai_getBlockByNumber'' [PStr ''latest'', PBool True])
       (\<lambda>raw. if raw = Some JNull then Inl (Msg ''node returned null for latest block'')
              else ParseBlock undef raw)"

definition BlockByHash ::
  "(string \<Rightarrow> int) \<Rightarrow> (string \<Rightarrow> rpc_param list \<Rightarrow> err + json option) \<Rightarrow> string \<Rightarrow> err + block" where
  "BlockByHash undef callOne hash =
     bindE (callOne ''quai_getBlockByHash'' [PStr hash, PBool True])
       (\<lambda>raw. if raw = Some JNull then Inl (Msg (''block '' @ hash @ '' not found''))
              else ParseBlock undef raw)"

record rpc_request =
  rq_ID :: int
  rq_Method :: string
  rq_Params :: "rpc_param list"

record rpc_response =
  rp_ID :: int
  rp_Result :: "json option"
  rp_Error :: "(int \<times> string) option"

text \<open>\<open>(*rpcError).Error\<close>.\<close>

definition rpcError_Error :: "int \<times> string \<Rightarrow> string" where
  "rpcError_Error e = ''rpc error '' @ FormatInt (fst e) @ '': '' @ snd e"

definition heights_from :: "u64 \<Rightarrow> u64 \<Rightarrow> u64 list" where
  "heights_from lo hi = map word_of_nat [unat lo..<unat hi]"

definition range_block ::
  "(string \<Rightarrow> int) \<Rightarrow> rpc_response \<Rightarrow> block list \<Rightarrow> err + block list" where
  "range_block undef r blocks =
     (case rp_Error r of
        Some e \<Rightarrow> Inl (Wrap ''block'' (Ext (rpcError_Error e)))
      | None \<Rightarrow>
          if rp_Result r = Some JNull then Inr blocks
          else bindE (wrapE ''block'' (ParseBlock undef (rp_Result r))) (\<lambda>b. Inr (blocks @ [b])))"

definition BlocksByRange ::
  "(string \<Rightarrow> int) \<Rightarrow> (rpc_request list \<Rightarrow> err + rpc_response list) \<Rightarrow> u64 \<Rightarrow> u64 \<Rightarrow> err + block list" where
  "BlocksByRange undef call lo hi =
     (if hi \<le> lo then Inr []
      else bindE (call (map (\<lambda>h. \<lparr>rq_ID = int (unat (h - lo)), rq_Method = ''quai_getBlockByNumber'',
                           rq_Params = [PStr (hex_quantity h), PBool True]\<rparr>) (heights_from lo hi)))
             (\<lambda>res. bindE (foldE (range_block undef) res [])
                (\<lambda>blocks. Inr (sort_key Height blocks))))"

section \<open>What the parsers guarantee\<close>

lemma ParseBlock_linked_fields:
  "ParseBlock undef raw = Inr b \<Longrightarrow> Hash b \<noteq> [] \<and> ParentHash b \<noteq> [] \<and> Raw b = raw"
  by (auto simp: ParseBlock_def bindE_eq_Inr Let_def split: if_splits option.splits)

lemma ParseWSBlock_linked_fields:
  "ParseWSBlock undef raw = Inr b \<Longrightarrow> Hash b \<noteq> [] \<and> ParentHash b \<noteq> [] \<and> Raw b = raw"
  by (auto simp: ParseWSBlock_def bindE_eq_Inr Let_def split: if_splits option.splits)

lemma BlocksByRange_sorted:
  "BlocksByRange undef call lo hi = Inr bs \<Longrightarrow>
   sorted (map Height bs) \<and> (\<forall>b \<in> set bs. Hash b \<noteq> [] \<and> ParentHash b \<noteq> [])"
proof -
  assume r: "BlocksByRange undef call lo hi = Inr bs"
  show ?thesis
  proof (cases "hi \<le> lo")
    case True
    with r show ?thesis by (simp add: BlocksByRange_def)
  next
    case False
    with r obtain res bl where f: "foldE (range_block undef) res [] = Inr bl" "bs = sort_key Height bl"
      by (auto simp: BlocksByRange_def bindE_eq_Inr)
    have "\<forall>b \<in> set bl. Hash b \<noteq> [] \<and> ParentHash b \<noteq> []"
      by (rule foldE_invariant [OF f(1)])
        (auto simp: range_block_def bindE_eq_Inr split: option.splits if_splits
          dest!: ParseBlock_linked_fields)
    with f(2) show ?thesis by simp
  qed
qed

lemma hex_quantity_round_trip:
  "res_of (ParseUint (trim0x (hex_quantity n)) 16 64) = Inr (unat n)"
  "parse_timestamp (hex_quantity n) = n" "hex_quantity n \<noteq> []"
proof -
  have "ParseUint (FormatUint 16 (unat n)) 16 64 = (unat n, None)"
    by (rule ParseUint_FormatUint) simp_all
  then show "res_of (ParseUint (trim0x (hex_quantity n)) 16 64) = Inr (unat n)"
    "parse_timestamp (hex_quantity n) = n" "hex_quantity n \<noteq> []"
    by (simp_all add: hex_quantity_def res_of_def parse_timestamp_def)
qed

lemma rate_round_trip: "parse_rate undef (CHR ''0'' # CHR ''x'' # int_Text 16 r) = Some r"
proof -
  have "int_SetString 16 (int_Text 16 r) = Some r" by (rule int_SetString_Text) simp_all
  moreover from this have "int_Text 16 r \<noteq> []" by (auto simp: int_SetString_def)
  ultimately show ?thesis by (simp add: parse_rate_def Let_def)
qed

end
