(* ===== verification/RpcClient.thy ===== *)
theory RpcClient
  imports RpcBlocks
begin

text \<open>
  \<open>internal/rpcclient/client.go\<close> and the streaming half of \<open>ws.go\<close>. The HTTP transport is the
  parameter \<open>transport\<close>: what building the request, waiting for the next attempt and sending the
  batch of the \<open>n\<close>-th attempt give. \<open>call_attempts\<close> is the retry loop, three attempts at most.
  A WebSocket session is the record of what the connection does: \<open>streamOnce\<close> is what one session
  delivers and how it ends, \<open>StreamBlocks\<close> the sequence of sessions with the wait after each.
\<close>

section \<open>JSON of the protocol\<close>

fun un_int :: "json \<Rightarrow> int \<Rightarrow> err + int" where
  "un_int JNull old = Inr old"
| "un_int (JNum s) old = res_of (ParseInt s 10 64)"
| "un_int _ old = Inl ErrType"

definition rpcError_member :: "string \<times> json \<Rightarrow> int \<times> string \<Rightarrow> err + (int \<times> string)" where
  "rpcError_member m r = (case m of (k, j) \<Rightarrow>
     if key_is ''code'' k then bindE (un_int j (fst r)) (\<lambda>x. Inr (x, snd r))
     else if key_is ''message'' k then bindE (un_string j (snd r)) (\<lambda>x. Inr (fst r, x))
     else Inr r)"

definition response_member :: "string \<times> json \<Rightarrow> rpc_response \<Rightarrow> err + rpc_response" where
  "response_member m r = (case m of (k, j) \<Rightarrow>
     if key_is ''id'' k then bindE (un_int j (rp_ID r)) (\<lambda>x. Inr (r\<lparr>rp_ID := x\<rparr>))
     else if key_is ''result'' k then Inr (r\<lparr>rp_Result := Some j\<rparr>)
     else if key_is ''error'' k
     then bindE (un_ptr (\<lambda>j. un_struct rpcError_member j (0, [])) j) (\<lambda>x. Inr (r\<lparr>rp_Error := x\<rparr>))
     else Inr r)"

definition zero_response :: rpc_response where
  "zero_response = \<lparr>rp_ID = 0, rp_Result = None, rp_Error = None\<rparr>"

definition un_response :: "json \<Rightarrow> err + rpc_response" where
  "un_response j = un_struct response_member j zero_response"

text \<open>A batch is an array of responses; some proxies unwrap a batch of one.\<close>

definition decode_batch :: "json option \<Rightarrow> err + rpc_response list" where
  "decode_batch data =
     (case data of
        None \<Rightarrow> Inl (Wrap ''decode response'' (Ext ''invalid character''))
      | Some j \<Rightarrow>
          (case un_slice un_response j of
             Inr out \<Rightarrow> Inr (slice_list out)
           | Inl e \<Rightarrow>
               (case un_response j of
                  Inl e2 \<Rightarrow> Inl (Wrap ''decode response'' e)
                | Inr one \<Rightarrow> Inr [one])))"

section \<open>The client\<close>

record http_response =
  h_Status :: nat
  h_ReadErr :: "err option"
  h_Data :: "json option"

record transport =
  t_NewRequest :: "err option"
  t_Wait :: "nat \<Rightarrow> err option"
  t_Do :: "rpc_request list \<Rightarrow> nat \<Rightarrow> err + http_response"

definition http_failed :: "http_response \<Rightarrow> bool" where
  "http_failed resp \<longleftrightarrow> h_ReadErr resp \<noteq> None \<or> h_Status resp \<noteq> 200"

definition http_error :: "http_response \<Rightarrow> err" where
  "http_error resp = Msg (''http '' @ FormatUint 10 (h_Status resp) @ '': '' @
     (case h_ReadErr resp of None \<Rightarrow> ''<nil>'' | Some e \<Rightarrow> err_text e))"

fun call_attempts ::
  "transport \<Rightarrow> rpc_request list \<Rightarrow> nat \<Rightarrow> nat \<Rightarrow> err \<Rightarrow> err + rpc_response list" where
  "call_attempts t reqs attempt 0 lastErr = Inl lastErr"
| "call_attempts t reqs attempt (Suc n) lastErr =
     (case (if 0 < attempt then t_Wait t attempt else None) of
        Some e \<Rightarrow> Inl e
      | None \<Rightarrow>
          (case t_NewRequest t of
             Some e \<Rightarrow> Inl e
           | None \<Rightarrow>
               (case t_Do t reqs attempt of
                  Inl e \<Rightarrow> call_attempts t reqs (Suc attempt) n e
                | Inr resp \<Rightarrow>
                    if http_failed resp then call_attempts t reqs (Suc attempt) n (http_error resp)
                    else decode_batch (h_Data resp))))"

definition client_call :: "transport \<Rightarrow> rpc_request list \<Rightarrow> err + rpc_response list" where
  "client_call t reqs = call_attempts t reqs 0 3 (Msg [])"

definition callOne :: "transport \<Rightarrow> string \<Rightarrow> rpc_param list \<Rightarrow> err + json option" where
  "callOne t method params =
     bindE (client_call t [\<lparr>rq_ID = 0, rq_Method = method, rq_Params = params\<rparr>])
       (\<lambda>res. case res of
          [] \<Rightarrow> Inl (Msg (method @ '': empty response''))
        | r # _ \<Rightarrow>
            (case rp_Error r of
               Some e \<Rightarrow> Inl (Wrap method (Ext (rpcError_Error e)))
             | None \<Rightarrow> Inr (rp_Result r)))"

definition CallRaw :: "transport \<Rightarrow> string \<Rightarrow> rpc_param list \<Rightarrow> err + json option" where
  "CallRaw t method params = callOne t method params"

definition BlockNumber :: "transport \<Rightarrow> err + u64" where
  "BlockNumber t =
     bindE (callOne t ''quai_blockNumber'' [])
       (\<lambda>raw. bindE (case raw of None \<Rightarrow> Inl (Ext ''unexpected end of JSON input'') | Some j \<Rightarrow> un_string j [])
          (\<lambda>s. bindE (res_of (ParseUint (trim0x s) 16 64)) (\<lambda>v. Inr (word_of_nat v))))"

text \<open>The two interfaces of the follower, served by the client.\<close>

definition client_fetch :: "(string \<Rightarrow> int) \<Rightarrow> transport \<Rightarrow> string \<Rightarrow> err + block" where
  "client_fetch undef t = BlockByHash undef (callOne t)"

definition client_range :: "(string \<Rightarrow> int) \<Rightarrow> transport \<Rightarrow> u64 \<Rightarrow> u64 \<Rightarrow> err + block list" where
  "client_range undef t = BlocksByRange undef (client_call t)"

section \<open>The block stream\<close>

definition params_member :: "string \<times> json \<Rightarrow> json option \<Rightarrow> err + json option" where
  "params_member m r = (case m of (k, j) \<Rightarrow> if key_is ''result'' k then Inr (Some j) else Inr r)"

definition note_member :: "string \<times> json \<Rightarrow> string \<times> json option \<Rightarrow> err + (string \<times> json option)" where
  "note_member m r = (case m of (k, j) \<Rightarrow>
     if key_is ''method'' k then bindE (un_string j (fst r)) (\<lambda>x. Inr (x, snd r))
     else if key_is ''params'' k then bindE (un_struct params_member j (snd r)) (\<lambda>x. Inr (fst r, x))
     else Inr r)"

text \<open>What one message of the socket becomes: a block, or nothing.\<close>

definition ws_message :: "(string \<Rightarrow> int) \<Rightarrow> json option \<Rightarrow> block option" where
  "ws_message undef msg =
     (case msg of
        None \<Rightarrow> None
      | Some j \<Rightarrow>
          (case un_struct note_member j ([], None) of
             Inl e \<Rightarrow> None
           | Inr note \<Rightarrow>
               if snd note = None then None
               else (case ParseWSBlock undef (snd note) of Inl e \<Rightarrow> None | Inr b \<Rightarrow> Some b)))"

record ws_session =
  ws_Dial :: "err option"
  ws_Subscribe :: "err option"
  ws_Messages :: "json option list"
  ws_End :: err

definition streamOnce :: "(string \<Rightarrow> int) \<Rightarrow> ws_session \<Rightarrow> block list \<times> err" where
  "streamOnce undef s =
     (case ws_Dial s of
        Some e \<Rightarrow> ([], Wrap ''dial'' e)
      | None \<Rightarrow>
          (case ws_Subscribe s of
             Some e \<Rightarrow> ([], Wrap ''subscribe'' e)
           | None \<Rightarrow> (List.map_filter (ws_message undef) (ws_Messages s), Wrap ''read'' (ws_End s))))"

text \<open>Per session: the blocks it fed into the channel and the seconds waited after it.\<close>

fun stream_sessions :: "(string \<Rightarrow> int) \<Rightarrow> nat \<Rightarrow> ws_session list \<Rightarrow> (block list \<times> nat) list" where
  "stream_sessions undef backoff [] = []"
| "stream_sessions undef backoff (s # ss) =
     (fst (streamOnce undef s), backoff) #
     stream_sessions undef (if backoff < 30 then backoff * 2 else backoff) ss"

definition StreamBlocks :: "(string \<Rightarrow> int) \<Rightarrow> ws_session list \<Rightarrow> (block list \<times> nat) list" where
  "StreamBlocks undef sessions = stream_sessions undef 1 sessions"

section \<open>The retry loop\<close>

text \<open>An attempt that fails so that the loop goes on.\<close>

definition attempt_failed :: "transport \<Rightarrow> rpc_request list \<Rightarrow> nat \<Rightarrow> bool" where
  "attempt_failed t reqs k =
     (case t_Do t reqs k of Inl e \<Rightarrow> True | Inr resp \<Rightarrow> http_failed resp)"

lemma call_attempts_skip:
  assumes "t_NewRequest t = None" "\<And>k. t_Wait t k = None" "\<And>k. a \<le> k \<Longrightarrow> k < a + m \<Longrightarrow> attempt_failed t reqs k"
    and "m \<le> n"
  shows "\<exists>e'. call_attempts t reqs a n e = call_attempts t reqs (a + m) (n - m) e'"
  using assms(3,4)
proof (induction m arbitrary: a n e)
  case (Suc m)
  then obtain n' where n: "n = Suc n'" by (cases n) auto
  have f: "attempt_failed t reqs a" using Suc.prems(1) by simp
  have "\<exists>e1. call_attempts t reqs a n e = call_attempts t reqs (Suc a) n' e1"
  proof (cases "t_Do t reqs a")
    case (Inl d)
    with assms(1,2) show ?thesis by (auto simp: n)
  next
    case (Inr resp)
    with f assms(1,2) show ?thesis by (auto simp: n attempt_failed_def)
  qed
  then obtain e1 where e1: "call_attempts t reqs a n e = call_attempts t reqs (Suc a) n' e1" ..
  obtain e2 where "call_attempts t reqs (Suc a) n' e1 = call_attempts t reqs (Suc a + m) (n' - m) e2"
    using Suc.IH [of "Suc a" n' e1] Suc.prems n by auto
  with e1 n show ?case by auto
qed auto

lemma call_retry:
  assumes "t_NewRequest t = None" "\<And>k. t_Wait t k = None" "\<And>i. i < k \<Longrightarrow> attempt_failed t reqs i"
    and "k < 3" "t_Do t reqs k = Inr resp" "\<not> http_failed resp"
  shows "client_call t reqs = decode_batch (h_Data resp)"
proof -
  obtain e' where "call_attempts t reqs 0 3 (Msg []) = call_attempts t reqs (0 + k) (3 - k) e'"
    using call_attempts_skip [of t 0 k reqs 3 "Msg []"] assms(1-4) by auto
  moreover obtain n where "3 - k = Suc n" using assms(4) by (cases "3 - k") auto
  ultimately have "client_call t reqs = call_attempts t reqs k (Suc n) e'"
    by (simp add: client_call_def)
  with assms(1,2,5,6) show ?thesis by (cases "k = 0") simp_all
qed

lemma call_gives_up:
  assumes "\<And>k. k < 3 \<Longrightarrow> attempt_failed t reqs k"
  shows "isl (client_call t reqs)"
proof -
  have "isl (call_attempts t reqs a n e)" if "a + n \<le> 3" for a n e
    using that
  proof (induction n arbitrary: a e)
    case (Suc n)
    then have "attempt_failed t reqs a" by (intro assms) simp
    with Suc show ?case
      by (auto simp: attempt_failed_def split: option.splits sum.splits)
  qed simp
  then show ?thesis by (simp add: client_call_def)
qed

section \<open>The waits\<close>

lemma stream_backoff:
  "i < length ss \<Longrightarrow> snd (stream_sessions undef b ss ! i) \<le> max b 58"
proof (induction ss arbitrary: b i)
  case (Cons s ss)
  show ?case
  proof (cases i)
    case (Suc j)
    with Cons.IH [of j "if b < 30 then b * 2 else b"] Cons.prems show ?thesis by (auto split: if_splits)
  qed simp
qed simp

lemma stream_waits:
  "i < length ss \<Longrightarrow> snd (stream_sessions undef (min 32 (2 ^ k)) ss ! i) = min 32 (2 ^ (k + i))"
proof (induction ss arbitrary: k i)
  case (Cons s ss)
  have next': "(if min 32 (2 ^ k) < (30 :: nat) then min 32 (2 ^ k) * 2 else min 32 (2 ^ k)) = min 32 ((2 :: nat) ^ Suc k)"
  proof (cases "k \<le> 4")
    case True
    then have "k \<in> {0, 1, 2, 3, 4}" by auto
    then show ?thesis by auto
  next
    case False
    then have "(2 :: nat) ^ 5 \<le> 2 ^ k" by (intro power_increasing) auto
    then show ?thesis by simp
  qed
  show ?case
  proof (cases i)
    case (Suc j)
    with Cons.IH [of j "Suc k"] Cons.prems next' show ?thesis by simp
  qed simp
qed simp

lemma StreamBlocks_waits:
  "i < length ss \<Longrightarrow> snd (StreamBlocks undef ss ! i) = min 32 (2 ^ i)"
  using stream_waits [of i ss undef 0] by (simp add: StreamBlocks_def)

lemma ws_message_block: "ws_message undef msg = Some b \<Longrightarrow> Hash b \<noteq> [] \<and> ParentHash b \<noteq> []"
  by (auto simp: ws_message_def split: option.splits sum.splits if_splits dest: ParseWSBlock_linked_fields)

section \<open>Properties\<close>

text \<open>
  C30: Two failures in a row do no harm. When the waits are not cancelled, the answer of a call is
  the decoded body of the first attempt of the three that reaches the node and returns status 200,
  whatever way the attempts before it failed.
\<close>

theorem client_call_retries:
  assumes "t_NewRequest t = None" "\<And>k. t_Wait t k = None" "\<And>i. i < k \<Longrightarrow> attempt_failed t reqs i"
    and "k < 3" "t_Do t reqs k = Inr resp" "\<not> http_failed resp"
  shows "client_call t reqs = decode_batch (h_Data resp)"
  using assms by (rule call_retry)

definition ex_transport :: transport where
  "ex_transport = \<lparr>t_NewRequest = None, t_Wait = (\<lambda>_. None),
     t_Do = (\<lambda>reqs k. if k = 0 then Inl (Msg ''refused'')
       else if k = 1 then Inr \<lparr>h_Status = 502, h_ReadErr = None, h_Data = None\<rparr>
       else Inr \<lparr>h_Status = 200, h_ReadErr = None, h_Data = Some (JArr [])\<rparr>)\<rparr>"

theorem client_call_retries_witness: "client_call ex_transport [] = Inr []"
proof -
  have "attempt_failed ex_transport [] i" if "i < 2" for i
    using that by (auto simp: attempt_failed_def ex_transport_def http_failed_def less_Suc_eq numeral_2_eq_2)
  then show ?thesis
    using client_call_retries [of ex_transport 2 "[]" "\<lparr>h_Status = 200, h_ReadErr = None, h_Data = Some (JArr [])\<rparr>"]
    by (simp add: ex_transport_def http_failed_def decode_batch_def slice_list_def)
qed

text \<open>
  Three failures are an error. When all three attempts fail, the call returns an error and no
  batch, and so do the calls built on it: no caller takes a failed exchange for an empty answer.
\<close>

theorem client_call_gives_up:
  assumes "\<And>reqs k. k < 3 \<Longrightarrow> attempt_failed t reqs k"
  shows "isl (client_call t reqs) \<and> isl (CallRaw t method params) \<and> isl (BlockNumber t) \<and>
    isl (client_fetch undef t h)"
proof -
  have c: "\<exists>e. client_call t reqs = Inl e" for reqs
    using call_gives_up [of t reqs] assms by (auto simp: isl_def)
  have o: "\<exists>e. callOne t m ps = Inl e" for m ps
  proof -
    obtain e where "client_call t [\<lparr>rq_ID = 0, rq_Method = m, rq_Params = ps\<rparr>] = Inl e" using c by blast
    then show ?thesis by (simp add: callOne_def)
  qed
  obtain e1 e2 e3 where "callOne t method params = Inl e1" "callOne t ''quai_blockNumber'' [] = Inl e2"
    "callOne t ''quai_getBlockByHash'' [PStr h, PBool True] = Inl e3"
    using o by blast
  with c show ?thesis
    by (auto simp: CallRaw_def BlockNumber_def client_fetch_def BlockByHash_def isl_def)
qed

theorem client_call_gives_up_witness:
  "isl (client_call (ex_transport\<lparr>t_Do := (\<lambda>_ _. Inl (Msg ''refused''))\<rparr>) []) \<and>
   isl (BlockNumber (ex_transport\<lparr>t_Do := (\<lambda>_ _. Inl (Msg ''refused''))\<rparr>))"
  using client_call_gives_up [of "ex_transport\<lparr>t_Do := (\<lambda>_ _. Inl (Msg ''refused''))\<rparr>" "[]"]
  by (simp add: attempt_failed_def)

text \<open>
  The reconnection waits double up to a bound. After the \<open>i\<close>-th session of the block stream,
  counted from 0, \<open>StreamBlocks\<close> waits \<open>2 ^ i\<close> seconds, and never more than 32; and every block it
  delivers has a hash and a parent hash.
\<close>

theorem StreamBlocks_backoff:
  assumes "i < length ss"
  shows "snd (StreamBlocks undef ss ! i) = min 32 (2 ^ i) \<and>
    (\<forall>b \<in> set (fst (StreamBlocks undef ss ! i)). Hash b \<noteq> [] \<and> ParentHash b \<noteq> [])"
proof -
  have "fst (stream_sessions undef bo ss ! i) = fst (streamOnce undef (ss ! i))" if "i < length ss" for bo i ss
    using that
  proof (induction ss arbitrary: bo i)
    case (Cons s ss)
    then show ?case by (cases i) simp_all
  qed simp
  with assms have "fst (StreamBlocks undef ss ! i) = fst (streamOnce undef (ss ! i))" by (simp add: StreamBlocks_def)
  moreover have "Hash b \<noteq> [] \<and> ParentHash b \<noteq> []" if "b \<in> set (fst (streamOnce undef s))" for b s
  proof -
    from that obtain msg where "ws_message undef msg = Some b"
      by (auto simp: streamOnce_def map_filter_def split: option.splits)
    then show ?thesis by (rule ws_message_block)
  qed
  ultimately show ?thesis using StreamBlocks_waits [OF assms] by auto
qed

theorem StreamBlocks_backoff_witness:
  "snd (StreamBlocks (\<lambda>_. 0) (replicate 8 \<lparr>ws_Dial = Some (Msg ''refused''), ws_Subscribe = None,
     ws_Messages = [], ws_End = Msg []\<rparr>) ! 6) = 32"
  using StreamBlocks_backoff [of 6 "replicate 8 \<lparr>ws_Dial = Some (Msg ''refused''), ws_Subscribe = None,
     ws_Messages = [], ws_End = Msg []\<rparr>" "\<lambda>_. 0"] by simp

end
