(* ===== verification/RunLoop.thy ===== *)
theory RunLoop
  imports MemoryStore RpcClient
begin

text \<open>
  \<open>Indexer.Run\<close> of \<open>internal/indexer/indexer.go\<close> with the goroutine it starts, \<open>StreamBlocks\<close> and
  \<open>streamOnce\<close> of \<open>internal/rpcclient/ws.go\<close>, and \<open>Serve\<close> of \<open>internal/metrics/metrics.go\<close>. The two
  goroutines share the channel \<open>heads\<close> (capacity 16), the context and the reconnect counter. Each
  thing one of them can do next is a function from the state, \<open>None\<close> where it cannot happen, and
  \<open>run_step\<close> picks one: the stream looks at the context before it dials, connects, gets a message, puts a block into the channel, loses its
  connection or wakes up; the loop takes a head, polls, or sees the end of the context; the ticker
  fires; the context is cancelled. \<open>rn_sent\<close> and \<open>rn_taken\<close> are logs of what went into the channel and
  what the loop took out of it.

  The lemmas show that each step of the loop is a step of \<open>ix_step\<close> or leaves the indexer alone
  (\<open>run_step_ix\<close>) and that the channel is a bounded queue (\<open>run_ok\<close>).
\<close>

datatype stream =
    Entering nat
  | Dialing nat
  | Reading nat
  | Sending nat block
  | Waiting nat
  | StreamEnded

record 's run =
  rn_ix :: "'s indexer"
  rn_heads :: "block list"
  rn_stream :: stream
  rn_tick :: bool
  rn_canceled :: bool
  rn_returned :: bool
  rn_reconnects :: nat
  rn_sent :: "block list"
  rn_taken :: "block list"

definition heads_capacity :: nat where "heads_capacity = 16"

section \<open>The start\<close>

text \<open>\<open>Run\<close> up to its loop: the error of the catch-up ends it.\<close>

definition run_start ::
  "'s store_ops \<Rightarrow> (string \<Rightarrow> err + block) \<Rightarrow> (u64 \<Rightarrow> u64 \<Rightarrow> err + block list) \<Rightarrow> (err + block) \<Rightarrow> string \<Rightarrow>
   's indexer \<Rightarrow> (err + 's run) option" where
  "run_start ops fetch rf latest wsURL ix =
     (case catchUpIfBehind ops fetch rf latest ix of
        None \<Rightarrow> None
      | Some (Some e, ix') \<Rightarrow> Some (Inl (Wrap ''catch-up'' e))
      | Some (None, ix') \<Rightarrow> Some (Inr
          \<lparr>rn_ix = ix', rn_heads = [], rn_stream = (if wsURL = [] then StreamEnded else Entering 1),
           rn_tick = False, rn_canceled = False, rn_returned = False, rn_reconnects = 0,
           rn_sent = [], rn_taken = []\<rparr>))"

section \<open>The stream\<close>

definition stream_gone :: "nat \<Rightarrow> 's run \<Rightarrow> 's run" where
  "stream_gone backoff st =
     (if rn_canceled st then st\<lparr>rn_stream := StreamEnded\<rparr>
      else st\<lparr>rn_stream := Waiting backoff, rn_reconnects := rn_reconnects st + 1\<rparr>)"

text \<open>The condition of the loop of \<open>StreamBlocks\<close>, looked at before every call of \<open>streamOnce\<close>.\<close>

definition stream_check :: "'s run \<Rightarrow> 's run option" where
  "stream_check st =
     (case rn_stream st of
        Entering b \<Rightarrow> Some (st\<lparr>rn_stream := (if rn_canceled st then StreamEnded else Dialing b)\<rparr>)
      | _ \<Rightarrow> None)"

text \<open>
  Dialing and subscribing succeed or fail, whichever \<open>ok\<close> says; a dial under way when the context
  ends may still succeed.
\<close>

definition stream_connect :: "bool \<Rightarrow> 's run \<Rightarrow> 's run option" where
  "stream_connect ok st =
     (case rn_stream st of
        Dialing b \<Rightarrow> Some (if ok then st\<lparr>rn_stream := Reading b\<rparr> else stream_gone b st)
      | _ \<Rightarrow> None)"

definition stream_message :: "(string \<Rightarrow> int) \<Rightarrow> json option \<Rightarrow> 's run \<Rightarrow> 's run option" where
  "stream_message undef msg st =
     (case rn_stream st of
        Reading b \<Rightarrow>
          Some (case ws_message undef msg of None \<Rightarrow> st | Some blk \<Rightarrow> st\<lparr>rn_stream := Sending b blk\<rparr>)
      | _ \<Rightarrow> None)"

definition stream_lost :: "'s run \<Rightarrow> 's run option" where
  "stream_lost st = (case rn_stream st of Reading b \<Rightarrow> Some (stream_gone b st) | _ \<Rightarrow> None)"

text \<open>\<open>out <- b\<close> waits for room; the other branch of its \<open>select\<close> waits for the end of the context.\<close>

definition stream_send :: "'s run \<Rightarrow> 's run option" where
  "stream_send st =
     (case rn_stream st of
        Sending b blk \<Rightarrow>
          if length (rn_heads st) < heads_capacity
          then Some (st\<lparr>rn_stream := Reading b, rn_heads := rn_heads st @ [blk], rn_sent := rn_sent st @ [blk]\<rparr>)
          else None
      | _ \<Rightarrow> None)"

definition stream_wake :: "'s run \<Rightarrow> 's run option" where
  "stream_wake st =
     (case rn_stream st of
        Waiting b \<Rightarrow> Some (st\<lparr>rn_stream := Entering (if b < 30 then b * 2 else b)\<rparr>)
      | _ \<Rightarrow> None)"

definition stream_done :: "'s run \<Rightarrow> 's run option" where
  "stream_done st =
     (if \<not> rn_canceled st then None
      else case rn_stream st of
        Sending b blk \<Rightarrow> Some (st\<lparr>rn_stream := StreamEnded\<rparr>)
      | Waiting b \<Rightarrow> Some (st\<lparr>rn_stream := StreamEnded\<rparr>)
      | _ \<Rightarrow> None)"

section \<open>The loop\<close>

definition loop_head ::
  "'s store_ops \<Rightarrow> (string \<Rightarrow> err + block) \<Rightarrow> (u64 \<Rightarrow> u64 \<Rightarrow> err + block list) \<Rightarrow> 's run \<Rightarrow> 's run option" where
  "loop_head ops fetch rf st =
     (if rn_returned st then None
      else case rn_heads st of
        [] \<Rightarrow> None
      | head # hs \<Rightarrow>
          map_option (\<lambda>ix. st\<lparr>rn_ix := ix, rn_heads := hs, rn_taken := rn_taken st @ [head]\<rparr>)
            (ix_ingest ops fetch rf head (rn_ix st)))"

definition loop_poll ::
  "'s store_ops \<Rightarrow> (string \<Rightarrow> err + block) \<Rightarrow> (u64 \<Rightarrow> u64 \<Rightarrow> err + block list) \<Rightarrow> (err + block) \<Rightarrow>
   's run \<Rightarrow> 's run option" where
  "loop_poll ops fetch rf latest st =
     (if rn_returned st \<or> \<not> rn_tick st then None
      else case latest of
        Inl e \<Rightarrow> Some (st\<lparr>rn_tick := False,
                   rn_ix := (rn_ix st)\<lparr>ix_counters := count_error (Some e) (ix_counters (rn_ix st))\<rparr>\<rparr>)
      | Inr head \<Rightarrow> map_option (\<lambda>ix. st\<lparr>rn_tick := False, rn_ix := ix\<rparr>)
                     (ix_ingest ops fetch rf head (rn_ix st)))"

definition loop_done :: "'s run \<Rightarrow> 's run option" where
  "loop_done st =
     (if rn_canceled st \<and> \<not> rn_returned st then Some (st\<lparr>rn_returned := True\<rparr>) else None)"

inductive run_step :: "'s store_ops \<Rightarrow> block set \<Rightarrow> (string \<Rightarrow> int) \<Rightarrow> 's run \<Rightarrow> 's run \<Rightarrow> bool"
  for ops B undef where
  check: "stream_check st = Some st' \<Longrightarrow> run_step ops B undef st st'"
| connect: "stream_connect ok st = Some st' \<Longrightarrow> run_step ops B undef st st'"
| message: "(\<And>b. ws_message undef msg = Some b \<Longrightarrow> b \<in> B) \<Longrightarrow> stream_message undef msg st = Some st' \<Longrightarrow>
    run_step ops B undef st st'"
| lost: "stream_lost st = Some st' \<Longrightarrow> run_step ops B undef st st'"
| send: "stream_send st = Some st' \<Longrightarrow> run_step ops B undef st st'"
| wake: "stream_wake st = Some st' \<Longrightarrow> run_step ops B undef st st'"
| stream_end: "stream_done st = Some st' \<Longrightarrow> run_step ops B undef st st'"
| head: "node_ok B fetch rf \<Longrightarrow> loop_head ops fetch rf st = Some st' \<Longrightarrow> run_step ops B undef st st'"
| poll: "node_ok B fetch rf \<Longrightarrow> (\<And>b. latest = Inr b \<Longrightarrow> b \<in> B) \<Longrightarrow>
    loop_poll ops fetch rf latest st = Some st' \<Longrightarrow> run_step ops B undef st st'"
| tick: "run_step ops B undef st (st\<lparr>rn_tick := True\<rparr>)"
| cancel: "run_step ops B undef st (st\<lparr>rn_canceled := True\<rparr>)"
| returned: "loop_done st = Some st' \<Longrightarrow> run_step ops B undef st st'"

inductive run_reach ::
  "'s store_ops \<Rightarrow> block set \<Rightarrow> (string \<Rightarrow> int) \<Rightarrow> string \<Rightarrow> 's indexer \<Rightarrow> 's run \<Rightarrow> bool"
  for ops B undef wsURL ix where
  start: "node_ok B fetch rf \<Longrightarrow> (\<And>b. latest = Inr b \<Longrightarrow> b \<in> B) \<Longrightarrow>
    run_start ops fetch rf latest wsURL ix = Some (Inr st) \<Longrightarrow> run_reach ops B undef wsURL ix st"
| step: "run_reach ops B undef wsURL ix st \<Longrightarrow> run_step ops B undef st st' \<Longrightarrow>
    run_reach ops B undef wsURL ix st'"

section \<open>The metrics server\<close>

text \<open>The two routes of \<open>metrics.Serve\<close>; what \<open>promhttp\<close> prints is a parameter.\<close>

definition metrics_route :: "(counters \<Rightarrow> nat \<Rightarrow> string) \<Rightarrow> counters \<Rightarrow> nat \<Rightarrow> string \<Rightarrow> nat \<times> string" where
  "metrics_route expose m reconnects path =
     (if path = ''/metrics'' then (200, expose m reconnects)
      else if path = ''/healthz'' then (200, ''ok'')
      else (404, ''404 page not found''))"

section \<open>The channel is a queue\<close>

definition stream_blocks :: "stream \<Rightarrow> block set" where
  "stream_blocks s = (case s of Sending b blk \<Rightarrow> {blk} | _ \<Rightarrow> {})"

definition stream_backoff_ok :: "stream \<Rightarrow> bool" where
  "stream_backoff_ok s =
     (case s of Entering b \<Rightarrow> b \<in> {1, 2, 4, 8, 16, 32} | Dialing b \<Rightarrow> b \<in> {1, 2, 4, 8, 16, 32}
      | Reading b \<Rightarrow> b \<in> {1, 2, 4, 8, 16, 32}
      | Sending b blk \<Rightarrow> b \<in> {1, 2, 4, 8, 16, 32} | Waiting b \<Rightarrow> b \<in> {1, 2, 4, 8, 16, 32} | StreamEnded \<Rightarrow> True)"

definition run_ok :: "block set \<Rightarrow> 's run \<Rightarrow> bool" where
  "run_ok B st \<longleftrightarrow>
     length (rn_heads st) \<le> heads_capacity \<and> rn_sent st = rn_taken st @ rn_heads st \<and>
     (\<forall>b \<in> set (rn_heads st) \<union> stream_blocks (rn_stream st). b \<in> B) \<and>
     stream_backoff_ok (rn_stream st) \<and> (rn_returned st \<longrightarrow> rn_canceled st)"

lemmas stream_defs = stream_check_def stream_connect_def stream_message_def stream_lost_def stream_send_def stream_wake_def
  stream_done_def stream_gone_def

definition backoffs :: "nat set" where "backoffs = {1, 2, 4, 8, 16, 32}"

lemma backoffs_1 [simp]: "1 \<in> backoffs" "Suc 0 \<in> backoffs"
  by (simp_all add: backoffs_def)

lemma backoffs_next: "b \<in> backoffs \<Longrightarrow> (if b < 30 then b * 2 else b) \<in> backoffs"
  by (auto simp: backoffs_def)

lemma backoffs_le: "b \<in> backoffs \<Longrightarrow> 1 \<le> b \<and> b \<le> 32"
  by (auto simp: backoffs_def)

lemma stream_backoff_ok_simps [simp]:
  "stream_backoff_ok (Entering b) = (b \<in> backoffs)"
  "stream_backoff_ok (Dialing b) = (b \<in> backoffs)"
  "stream_backoff_ok (Reading b) = (b \<in> backoffs)"
  "stream_backoff_ok (Sending b blk) = (b \<in> backoffs)"
  "stream_backoff_ok (Waiting b) = (b \<in> backoffs)"
  "stream_backoff_ok StreamEnded"
  by (simp_all add: stream_backoff_ok_def backoffs_def)

lemma stream_blocks_simps [simp]:
  "stream_blocks (Entering b) = {}" "stream_blocks (Dialing b) = {}" "stream_blocks (Reading b) = {}" "stream_blocks (Sending b blk) = {blk}"
  "stream_blocks (Waiting b) = {}" "stream_blocks StreamEnded = {}"
  by (simp_all add: stream_blocks_def)

lemma run_start_ok:
  assumes "run_start ops fetch rf latest wsURL ix = Some (Inr st)"
  shows "run_ok B st"
proof -
  from assms obtain ix' where "st = \<lparr>rn_ix = ix', rn_heads = [],
      rn_stream = (if wsURL = [] then StreamEnded else Entering 1), rn_tick = False, rn_canceled = False,
      rn_returned = False, rn_reconnects = 0, rn_sent = [], rn_taken = []\<rparr>"
    by (auto simp: run_start_def split: option.splits)
  then show ?thesis by (simp add: run_ok_def)
qed

lemma run_ok_gone: "run_ok B st \<Longrightarrow> b \<in> backoffs \<Longrightarrow> run_ok B (stream_gone b st)"
  by (auto simp: run_ok_def stream_gone_def)

lemma run_ok_check: "run_ok B st \<Longrightarrow> stream_check st = Some st' \<Longrightarrow> run_ok B st'"
  by (cases "rn_stream st") (auto simp: stream_check_def run_ok_def split: if_splits)

lemma run_ok_connect: "run_ok B st \<Longrightarrow> stream_connect ok st = Some st' \<Longrightarrow> run_ok B st'"
  by (cases "rn_stream st")
    (auto simp: stream_connect_def run_ok_def stream_gone_def split: if_splits)

lemma run_ok_message:
  assumes "run_ok B st" "stream_message undef msg st = Some st'"
    and "\<And>b. ws_message undef msg = Some b \<Longrightarrow> b \<in> B"
  shows "run_ok B st'"
proof (cases "rn_stream st")
  case (Reading b)
  then show ?thesis
    using assms by (cases "ws_message undef msg") (auto simp: stream_message_def run_ok_def)
qed (use assms(2) in \<open>simp_all add: stream_message_def\<close>)

lemma run_ok_lost:
  assumes "run_ok B st" "stream_lost st = Some st'"
  shows "run_ok B st'"
proof (cases "rn_stream st")
  case (Reading b)
  with assms run_ok_gone [OF assms(1), of b] show ?thesis by (simp add: stream_lost_def run_ok_def)
qed (use assms(2) in \<open>simp_all add: stream_lost_def\<close>)

lemma run_ok_send: "run_ok B st \<Longrightarrow> stream_send st = Some st' \<Longrightarrow> run_ok B st'"
  by (cases "rn_stream st") (auto simp: stream_send_def run_ok_def split: if_splits)

lemma run_ok_wake:
  assumes "run_ok B st" "stream_wake st = Some st'"
  shows "run_ok B st'"
proof (cases "rn_stream st")
  case (Waiting b)
  with assms(1) backoffs_next [of b] have n: "(if b < 30 then b * 2 else b) \<in> backoffs" by (simp add: run_ok_def)
  from Waiting assms(2) have "st' = st\<lparr>rn_stream := Entering (if b < 30 then b * 2 else b)\<rparr>"
    by (simp add: stream_wake_def)
  with n assms(1) show ?thesis by (simp add: run_ok_def)
qed (use assms(2) in \<open>simp_all add: stream_wake_def\<close>)

lemma run_ok_stream_done: "run_ok B st \<Longrightarrow> stream_done st = Some st' \<Longrightarrow> run_ok B st'"
  by (cases "rn_stream st") (auto simp: stream_done_def run_ok_def split: if_splits)

lemma run_ok_head: "run_ok B st \<Longrightarrow> loop_head ops fetch rf st = Some st' \<Longrightarrow> run_ok B st'"
  by (cases "rn_heads st") (auto simp: loop_head_def run_ok_def split: if_splits)

lemma run_ok_poll: "run_ok B st \<Longrightarrow> loop_poll ops fetch rf latest st = Some st' \<Longrightarrow> run_ok B st'"
  by (cases latest) (auto simp: loop_poll_def run_ok_def split: if_splits)

lemma run_ok_returned: "run_ok B st \<Longrightarrow> loop_done st = Some st' \<Longrightarrow> run_ok B st'"
  by (auto simp: loop_done_def run_ok_def split: if_splits)

lemma run_step_ok: "run_step ops B undef st st' \<Longrightarrow> run_ok B st \<Longrightarrow> run_ok B st'"
proof (induction rule: run_step.induct)
  case (tick st)
  then show ?case by (simp add: run_ok_def)
next
  case (cancel st)
  then show ?case by (simp add: run_ok_def)
qed (blast intro: run_ok_check run_ok_connect run_ok_message run_ok_lost run_ok_send run_ok_wake run_ok_stream_done run_ok_head
      run_ok_poll run_ok_returned)+

lemma run_reach_ok: "run_reach ops B undef wsURL ix st \<Longrightarrow> run_ok B st"
  by (induction rule: run_reach.induct) (auto intro: run_start_ok run_step_ok)

section \<open>The loop is the indexer's\<close>

lemma run_step_ix:
  "run_step ops B undef st st' \<Longrightarrow> run_ok B st \<Longrightarrow>
   rn_ix st' = rn_ix st \<or> \<not> rn_returned st \<and> ix_step ops B (rn_ix st) (rn_ix st')"
proof (induction rule: run_step.induct)
  case (head fetch rf st st')
  then obtain h hs ix where h: "rn_heads st = h # hs" "ix_ingest ops fetch rf h (rn_ix st) = Some ix"
    "rn_ix st' = ix" "\<not> rn_returned st"
    by (auto simp: loop_head_def split: if_splits list.splits)
  moreover have "h \<in> B" using head.prems h(1) by (simp add: run_ok_def)
  ultimately show ?case using ix_step.head [OF head.hyps(1)] by blast
next
  case (poll fetch rf latest st st')
  show ?case
  proof (cases latest)
    case (Inl e)
    with poll.hyps(3) ix_step.poll_failed [of ops B "rn_ix st" e] show ?thesis
      by (auto simp: loop_poll_def split: if_splits)
  next
    case (Inr h)
    with poll.hyps(3) obtain ix where "ix_ingest ops fetch rf h (rn_ix st) = Some ix" "rn_ix st' = ix"
      "\<not> rn_returned st"
      by (auto simp: loop_poll_def split: if_splits)
    with ix_step.head [OF poll.hyps(1)] poll.hyps(2) [OF Inr] show ?thesis by blast
  qed
qed (auto simp: stream_defs loop_done_def split: stream.splits option.splits if_splits)

lemma run_reach_ix: "run_reach ops B undef wsURL ix st \<Longrightarrow> ix_run ops B ix (rn_ix st)"
proof (induction rule: run_reach.induct)
  case (start fetch rf latest st)
  from start(3) have "catchUpIfBehind ops fetch rf latest ix = Some (None, rn_ix st)"
    by (auto simp: run_start_def split: option.splits)
  from ix_run.start [OF start(1,2) this] show ?case by simp
next
  case (step st st')
  from run_step_ix [OF step.hyps(2) run_reach_ok [OF step.hyps(1)]] step.IH ix_run.step show ?case by metis
qed

lemma run_reach_steps:
  "(run_step ops B undef)\<^sup>*\<^sup>* st st' \<Longrightarrow> run_reach ops B undef wsURL ix st \<Longrightarrow> run_reach ops B undef wsURL ix st'"
  by (induction rule: rtranclp_induct) (auto intro: run_reach.step)

lemma returned_stays: "run_step ops B undef st st' \<Longrightarrow> rn_returned st \<Longrightarrow> rn_returned st' \<and> rn_ix st' = rn_ix st"
  by (induction rule: run_step.induct)
    (auto simp: stream_defs loop_head_def loop_poll_def loop_done_def
      split: stream.splits option.splits if_splits)

section \<open>The end of the context\<close>

lemma run_step_trans: "run_step ops B undef st st' \<Longrightarrow> (run_step ops B undef)\<^sup>*\<^sup>* st' st'' \<Longrightarrow>
    (run_step ops B undef)\<^sup>*\<^sup>* st st''"
  by (rule converse_rtranclp_into_rtranclp)

lemma stream_stops:
  assumes "rn_canceled st"
  shows "(run_step ops B undef)\<^sup>*\<^sup>* st (st\<lparr>rn_stream := StreamEnded\<rparr>)"
proof (cases "rn_stream st")
  case (Entering b)
  with assms have "stream_check st = Some (st\<lparr>rn_stream := StreamEnded\<rparr>)" by (simp add: stream_check_def)
  then show ?thesis by (rule r_into_rtranclp [of "run_step ops B undef", OF run_step.check])
next
  case (Dialing b)
  with assms have "stream_connect False st = Some (st\<lparr>rn_stream := StreamEnded\<rparr>)"
    by (simp add: stream_connect_def stream_gone_def)
  then show ?thesis by (rule r_into_rtranclp [of "run_step ops B undef", OF run_step.connect])
next
  case (Reading b)
  with assms have "stream_lost st = Some (st\<lparr>rn_stream := StreamEnded\<rparr>)"
    by (simp add: stream_lost_def stream_gone_def)
  then show ?thesis by (rule r_into_rtranclp [of "run_step ops B undef", OF run_step.lost])
next
  case (Sending b blk)
  with assms have "stream_done st = Some (st\<lparr>rn_stream := StreamEnded\<rparr>)" by (simp add: stream_done_def)
  then show ?thesis by (rule r_into_rtranclp [of "run_step ops B undef", OF run_step.stream_end])
next
  case (Waiting b)
  with assms have "stream_done st = Some (st\<lparr>rn_stream := StreamEnded\<rparr>)" by (simp add: stream_done_def)
  then show ?thesis by (rule r_into_rtranclp [of "run_step ops B undef", OF run_step.stream_end])
next
  case StreamEnded
  then have "st\<lparr>rn_stream := StreamEnded\<rparr> = st" by simp
  then show ?thesis by simp
qed

lemma loop_stops:
  assumes "rn_canceled st"
  shows "(run_step ops B undef)\<^sup>*\<^sup>* st (st\<lparr>rn_returned := True\<rparr>)"
proof (cases "rn_returned st")
  case True
  then have "st\<lparr>rn_returned := True\<rparr> = st" by simp
  then show ?thesis by simp
next
  case False
  with assms have "loop_done st = Some (st\<lparr>rn_returned := True\<rparr>)" by (simp add: loop_done_def)
  then show ?thesis by (rule r_into_rtranclp [of "run_step ops B undef", OF run_step.returned])
qed

lemma returned_steps_stay:
  "(run_step ops B undef)\<^sup>*\<^sup>* st st' \<Longrightarrow> rn_returned st \<Longrightarrow> rn_returned st' \<and> rn_ix st' = rn_ix st"
  by (induction rule: rtranclp_induct) (auto dest: returned_stays)

section \<open>Properties\<close>

text \<open>
  C13: The two goroutines of \<open>Run\<close> are the loop of the indexer. However the block stream, the ticker,
  the cancellation and the loop interleave, the channel holds at most 16 heads, the heads the loop has
  taken and the heads in the channel are, in order, the heads the stream put there, the stream waits at
  most 32 seconds to reconnect, \<open>Run\<close> returns only after the context is done, and the indexer is in a
  state that the sequential loop \<open>ix_run\<close> reaches.
\<close>

theorem run_loop_simulates:
  assumes "run_reach ops B undef wsURL ix st"
  shows "length (rn_heads st) \<le> 16 \<and> rn_sent st = rn_taken st @ rn_heads st \<and>
    (\<forall>b. rn_stream st = Waiting b \<longrightarrow> 1 \<le> b \<and> b \<le> 32) \<and> (rn_returned st \<longrightarrow> rn_canceled st) \<and>
    ix_run ops B ix (rn_ix st)"
  using run_reach_ok [OF assms] run_reach_ix [OF assms] backoffs_le
  by (auto simp: run_ok_def heads_capacity_def)

definition ex_wo :: json where
  "ex_wo = JObj [(''woHeader'', JObj [(''hash'', JStr ''a1''), (''parentHash'', JStr ''a0''), (''number'', JStr ''0x1'')])]"

definition ex_message :: "json option" where
  "ex_message = Some (JObj [(''params'', JObj [(''result'', ex_wo)])])"

definition ex_head :: block where
  "ex_head = \<lparr>Height = 1, Hash = ''a1'', ParentHash = ''a0'', Timestamp = 0, ExchangeRate = None, Raw = Some ex_wo\<rparr>"

lemma ex_message_head: "ws_message undef ex_message = Some ex_head"
proof -
  have "ParseUint ''1'' 16 64 = (1, None)" by (simp add: ParseUint_def digit_val_def)
  moreover have "parse_timestamp [] = 0" by (simp add: parse_timestamp_def ParseUint_def TrimPrefix_def)
  moreover have "parse_rate undef [] = None" by (simp add: parse_rate_def TrimPrefix_def)
  ultimately show ?thesis
    by (simp add: ws_message_def ex_message_def ex_wo_def ex_head_def note_member_def params_member_def
        ParseWSBlock_def wsSpine_member_def woHeader_member_def key_is_def lower_ascii_def zero_spine_json_def
        res_of_def)
qed

definition ex_follower0 :: "memory follower" where
  "ex_follower0 = \<lparr>f_store = NewMemory, f_maxDepth = 10, f_window = Map.empty, f_tip = [], f_tipHeight = 0, f_updates = []\<rparr>"


definition ex_loop0 :: "memory run" where
  "ex_loop0 = \<lparr>rn_ix = NewIndexer ex_follower0 10, rn_heads = [], rn_stream = Entering 1, rn_tick = False,
     rn_canceled = False, rn_returned = False, rn_reconnects = 0, rn_sent = [], rn_taken = []\<rparr>"

definition ex_fail :: "'a \<Rightarrow> err + 'b" where "ex_fail x = Inl (Msg ''refused'')"

lemma ex_fail_node: "node_ok B ex_fail (\<lambda>lo. ex_fail)"
  by (simp add: node_ok_def ex_fail_def)

lemma ex_loop_start: "run_reach memory_ops {ex_head} undef ''ws'' (NewIndexer ex_follower0 10) ex_loop0"
  by (rule run_reach.start [OF ex_fail_node, of "Inl (Msg [])"])
    (simp_all add: run_start_def catchUpIfBehind_def follower_Tip_def NewIndexer_def ex_follower0_def ex_loop0_def)

lemma ex_loop_sent:
  "run_reach memory_ops {ex_head} undef ''ws'' (NewIndexer ex_follower0 10)
     (ex_loop0\<lparr>rn_stream := Reading 1, rn_heads := [ex_head], rn_sent := [ex_head]\<rparr>)"
proof -
  have d: "stream_check ex_loop0 = Some (ex_loop0\<lparr>rn_stream := Dialing 1\<rparr>)"
    by (simp add: stream_check_def ex_loop0_def)
  have c: "stream_connect True (ex_loop0\<lparr>rn_stream := Dialing 1\<rparr>) = Some (ex_loop0\<lparr>rn_stream := Reading 1\<rparr>)"
    by (simp add: stream_connect_def)
  have m: "stream_message undef ex_message (ex_loop0\<lparr>rn_stream := Reading 1\<rparr>) =
      Some (ex_loop0\<lparr>rn_stream := Sending 1 ex_head\<rparr>)"
    by (simp add: stream_message_def ex_message_head)
  have s: "stream_send (ex_loop0\<lparr>rn_stream := Sending 1 ex_head\<rparr>) =
      Some (ex_loop0\<lparr>rn_stream := Reading 1, rn_heads := [ex_head], rn_sent := [ex_head]\<rparr>)"
    by (simp add: stream_send_def heads_capacity_def ex_loop0_def)
  have N: "b \<in> {ex_head}" if "ws_message undef ex_message = Some b" for b
    using that by (simp add: ex_message_head)
  note r1 = run_reach.step [OF run_reach.step [OF ex_loop_start run_step.check [OF d]] run_step.connect [OF c]]
  note r2 = run_reach.step [OF r1 run_step.message [OF N m]]
  show ?thesis by (rule run_reach.step [OF r2 run_step.send [OF s]])
qed

lemma ex_loop_taken:
  "\<exists>st. run_reach memory_ops {ex_head} undef ''ws'' (NewIndexer ex_follower0 10) st \<and>
     rn_taken st = [ex_head] \<and> f_tip (ix_Follower (rn_ix st)) = ''a1''"
proof -
  let ?st = "ex_loop0\<lparr>rn_stream := Reading 1, rn_heads := [ex_head], rn_sent := [ex_head]\<rparr>"
  obtain ix where ix: "ix_ingest memory_ops ex_fail (\<lambda>lo. ex_fail) ex_head (rn_ix ?st) = Some ix"
    "f_tip (ix_Follower ix) = ''a1''"
    by (simp add: ex_loop0_def ix_ingest_def Ingest_def plan_update_def NewIndexer_def ex_follower0_def
        mem_ApplyUpdate_def NewMemory_def too_deep_def prune_def ex_head_def Let_def)
  then have h: "loop_head memory_ops ex_fail (\<lambda>lo. ex_fail) ?st =
      Some (?st\<lparr>rn_ix := ix, rn_heads := [], rn_taken := [ex_head]\<rparr>)"
    by (simp add: loop_head_def ex_loop0_def)
  let ?st' = "?st\<lparr>rn_ix := ix, rn_heads := [], rn_taken := [ex_head]\<rparr>"
  have "run_reach memory_ops {ex_head} undef ''ws'' (NewIndexer ex_follower0 10) ?st'"
    by (rule run_reach.step [OF ex_loop_sent run_step.head [OF ex_fail_node h]])
  moreover have "rn_taken ?st' = [ex_head]" "f_tip (ix_Follower (rn_ix ?st')) = ''a1''" using ix(2) by simp_all
  ultimately show ?thesis by blast
qed

theorem run_loop_simulates_witness:
  "\<exists>st :: memory run. rn_taken st = [ex_head] \<and> rn_sent st = [ex_head] @ rn_heads st \<and>
     ix_run memory_ops {ex_head} (NewIndexer ex_follower0 10) (rn_ix st)"
proof -
  obtain st where st: "run_reach memory_ops {ex_head} (\<lambda>_. 0) ''ws'' (NewIndexer ex_follower0 10) st"
    "rn_taken st = [ex_head]"
    using ex_loop_taken by blast
  from run_loop_simulates [OF st(1)] st(2) have
    "rn_taken st = [ex_head] \<and> rn_sent st = [ex_head] @ rn_heads st \<and>
     ix_run memory_ops {ex_head} (NewIndexer ex_follower0 10) (rn_ix st)"
    by simp
  then show ?thesis by blast
qed

text \<open>
  C14: Cancelling the context ends both goroutines. Wherever the block stream is when the context is
  done, also when it holds a block and the channel is full, there are steps that end it and let \<open>Run\<close>
  return, with the indexer, the channel and the logs as they were; and once \<open>Run\<close> has returned
  nothing ingests another head.
\<close>

theorem run_loop_shuts_down:
  assumes "rn_canceled st"
  shows "(run_step ops B undef)\<^sup>*\<^sup>* st (st\<lparr>rn_stream := StreamEnded, rn_returned := True\<rparr>) \<and>
    (\<forall>st'. (run_step ops B undef)\<^sup>*\<^sup>* (st\<lparr>rn_stream := StreamEnded, rn_returned := True\<rparr>) st' \<longrightarrow>
       rn_returned st' \<and> rn_ix st' = rn_ix st)"
proof (intro conjI allI impI)
  have "(run_step ops B undef)\<^sup>*\<^sup>* (st\<lparr>rn_stream := StreamEnded\<rparr>)
      ((st\<lparr>rn_stream := StreamEnded\<rparr>)\<lparr>rn_returned := True\<rparr>)"
    using assms by (intro loop_stops) simp
  with stream_stops [OF assms] show
    "(run_step ops B undef)\<^sup>*\<^sup>* st (st\<lparr>rn_stream := StreamEnded, rn_returned := True\<rparr>)"
    by (rule rtranclp_trans [THEN back_subst [of "\<lambda>x. (run_step ops B undef)\<^sup>*\<^sup>* st x"]]) simp
next
  fix st'
  assume "(run_step ops B undef)\<^sup>*\<^sup>* (st\<lparr>rn_stream := StreamEnded, rn_returned := True\<rparr>) st'"
  from returned_steps_stay [OF this] show "rn_returned st'" "rn_ix st' = rn_ix st" by simp_all
qed

theorem run_loop_shuts_down_witness:
  "(run_step memory_ops {} (\<lambda>_. 0))\<^sup>*\<^sup>*
     (ex_loop0\<lparr>rn_stream := Sending 1 ex_head, rn_heads := replicate 16 ex_head, rn_canceled := True\<rparr>)
     (ex_loop0\<lparr>rn_stream := StreamEnded, rn_heads := replicate 16 ex_head, rn_canceled := True, rn_returned := True\<rparr>)"
  using run_loop_shuts_down
    [of "ex_loop0\<lparr>rn_stream := Sending 1 ex_head, rn_heads := replicate 16 ex_head, rn_canceled := True\<rparr>"
      memory_ops "{}" "\<lambda>_. 0"]
  by (simp add: ex_loop0_def)

end
