(* ===== verification/QiDecode.thy ===== *)
theory QiDecode
  imports QiPrelude
begin

text \<open>
  \<open>internal/qidecode/qidecode.go\<close>: the derivation of UTXOs from coinbase and conversion ETXs.
  The protocol's constants and functions come from the go-quai module, which is not part of
  the repository: they are the fields of the record \<open>goquai\<close>, a parameter of every definition
  that uses them. \<open>LockupByteToBlockDepth\<close> is the value of Go's index expression; the decoder
  indexes it with 0 to 3 only.

  \<open>derive_loop\<close> is the loop of \<open>derivedOutputsCapped\<close>, with its three ways out. The lemmas
  say what it computes: the expansion of its groups is the prefix of length \<open>maxOutputs\<close> of
  the full greedy listing, from the highest denomination down.
\<close>

record goquai =
  Denominations :: "u8 \<Rightarrow> int option"
  TrimDepths :: "u8 \<Rightarrow> u64 option"
  FindMinDenominations :: "int \<Rightarrow> u8 \<Rightarrow> u64 option"
  CalculateCoinbaseValueWithLockup :: "int \<Rightarrow> u8 \<Rightarrow> u64 \<Rightarrow> int"
  LockupByteToBlockDepth :: "u8 \<Rightarrow> u64"
  ConversionLockPeriod_c :: u64
  TxGas :: u64
  CallValueTransferGas :: u64
  MaxOutputIndex :: u64
  MaxDenomination :: nat
  CoinbaseType :: u64
  ConversionType :: u64
  ExternalTxType :: u64
  QiTxType :: u64

definition SourceQiTx :: nat where "SourceQiTx = 0"
definition SourceCoinbaseETX :: nat where "SourceCoinbaseETX = 1"
definition SourceConversionETX :: nat where "SourceConversionETX = 2"

text \<open>A missing denomination is Go's nil \<open>*big.Int\<close>.\<close>

definition DenominationValue :: "goquai \<Rightarrow> u8 \<Rightarrow> int option" where
  "DenominationValue g d = Denominations g d"

definition TrimDeadline :: "goquai \<Rightarrow> u8 \<Rightarrow> u64 \<Rightarrow> u64" where
  "TrimDeadline g denomination createdHeight =
     (case TrimDepths g denomination of
        None \<Rightarrow> 0
      | Some depth \<Rightarrow> createdHeight + depth)"

definition CoinbaseLockupDepth :: "goquai \<Rightarrow> u8 \<Rightarrow> u64" where
  "CoinbaseLockupDepth g lockupByte = LockupByteToBlockDepth g lockupByte"

definition ConversionLockPeriod :: "goquai \<Rightarrow> u64" where
  "ConversionLockPeriod g = ConversionLockPeriod_c g"

definition MaxConversionOutputs :: "goquai \<Rightarrow> u64 \<Rightarrow> u64" where
  "MaxConversionOutputs g gasLimit =
     (if gasLimit < TxGas g then 0
      else let remaining = gasLimit - TxGas g;
               mx = remaining div CallValueTransferGas g
           in if MaxOutputIndex g < mx then MaxOutputIndex g else mx)"

record derived_output =
  Denomination :: u8
  Count :: u64
  LockHeight :: u64

fun derive_loop ::
  "(u8 \<Rightarrow> u64 option) \<Rightarrow> u64 \<Rightarrow> u64 \<Rightarrow> nat list \<Rightarrow> derived_output list \<Rightarrow> u64 \<Rightarrow>
   derived_output list" where
  "derive_loop denoms maxOutputs lockHeight [] out tot = out"
| "derive_loop denoms maxOutputs lockHeight (d # ds) out tot =
     (case denoms (word_of_nat d) of
        None \<Rightarrow> derive_loop denoms maxOutputs lockHeight ds out tot
      | Some count \<Rightarrow>
          if count = 0 then derive_loop denoms maxOutputs lockHeight ds out tot
          else let count' = (if maxOutputs < tot + count then maxOutputs - tot else count) in
            if count' = 0 then out
            else let out' = out @ [\<lparr>Denomination = word_of_nat d, Count = count', LockHeight = lockHeight\<rparr>];
                     tot' = tot + count'
                 in if maxOutputs \<le> tot' then out'
                    else derive_loop denoms maxOutputs lockHeight ds out' tot')"

definition derivedOutputsCapped :: "goquai \<Rightarrow> int \<Rightarrow> u64 \<Rightarrow> u64 \<Rightarrow> derived_output list" where
  "derivedOutputsCapped g value lockHeight gasLimit =
     (let denoms = FindMinDenominations g value;
          max0 = MaxOutputIndex g + 1;
          maxOutputs =
            (if 0 < gasLimit
             then let capped = MaxConversionOutputs g gasLimit in
                    if capped < max0 then capped else max0
             else max0)
      in derive_loop denoms maxOutputs lockHeight (rev [0..<Suc (MaxDenomination g)]) [] 0)"

definition derivedOutputs :: "goquai \<Rightarrow> int \<Rightarrow> u64 \<Rightarrow> derived_output list" where
  "derivedOutputs g value lockHeight = derivedOutputsCapped g value lockHeight 0"

definition CoinbaseETXOutputs :: "goquai \<Rightarrow> int \<Rightarrow> u8 \<Rightarrow> u64 \<Rightarrow> derived_output list" where
  "CoinbaseETXOutputs g rawValue lockupByte blockHeight =
     (let value = CalculateCoinbaseValueWithLockup g rawValue lockupByte blockHeight;
          lockHeight = blockHeight + LockupByteToBlockDepth g lockupByte
      in derivedOutputs g value lockHeight)"

definition ConversionETXOutputs :: "goquai \<Rightarrow> int \<Rightarrow> u64 \<Rightarrow> u64 \<Rightarrow> derived_output list" where
  "ConversionETXOutputs g value blockHeight gasLimit =
     derivedOutputsCapped g value (blockHeight + ConversionLockPeriod_c g) gasLimit"

section \<open>What the loop computes\<close>

text \<open>The outputs one by one, and the full greedy listing.\<close>

definition expand_outputs :: "derived_output list \<Rightarrow> u8 list" where
  "expand_outputs os = concat (map (\<lambda>o'. replicate (unat (Count o')) (Denomination o')) os)"

definition greedy_listing :: "(u8 \<Rightarrow> u64 option) \<Rightarrow> nat list \<Rightarrow> u8 list" where
  "greedy_listing denoms ds =
     concat (map (\<lambda>d. case denoms (word_of_nat d) of
                         None \<Rightarrow> []
                       | Some count \<Rightarrow> replicate (unat count) (word_of_nat d)) ds)"

definition output_cap :: "goquai \<Rightarrow> u64 \<Rightarrow> u64" where
  "output_cap g gasLimit =
     (if 0 < gasLimit then min (MaxConversionOutputs g gasLimit) (MaxOutputIndex g + 1)
      else MaxOutputIndex g + 1)"

lemma if_less_min: "(if a < b then a else b) = min a (b :: u64)"
  by (auto simp: min_def)

lemma derivedOutputsCapped_cap:
  "derivedOutputsCapped g value lockHeight gasLimit =
   derive_loop (FindMinDenominations g value) (output_cap g gasLimit) lockHeight
     (rev [0..<Suc (MaxDenomination g)]) [] 0"
  by (simp only: derivedOutputsCapped_def output_cap_def Let_def if_less_min)

text \<open>The clamp of one denomination: the rest of the capacity, without an overflow.\<close>

lemma clamp_count:
  fixes tot count maxOutputs :: u64
  defines "count' \<equiv> (if maxOutputs < tot + count then maxOutputs - tot else count)"
  assumes "tot \<le> maxOutputs" "unat maxOutputs < 2 ^ 63" "unat count < 2 ^ 63"
  shows "unat count' = min (unat count) (unat maxOutputs - unat tot)"
    and "unat (tot + count') = unat tot + unat count'"
proof -
  have le: "unat tot \<le> unat maxOutputs" using assms(2) by (simp add: word_le_nat_alt)
  have add: "unat (tot + count) = unat tot + unat count"
    using assms(3,4) le by (intro unat_add_lt) simp
  show c': "unat count' = min (unat count) (unat maxOutputs - unat tot)"
    using add le assms(2) by (auto simp: count'_def word_less_nat_alt unat_sub_le)
  show "unat (tot + count') = unat tot + unat count'"
    using c' le assms(3) by (intro unat_add_lt) simp
qed

lemma greedy_listing_Cons:
  "greedy_listing denoms (d # ds) =
     (case denoms (word_of_nat d) of None \<Rightarrow> [] | Some count \<Rightarrow> replicate (unat count) (word_of_nat d)) @
     greedy_listing denoms ds"
  by (simp add: greedy_listing_def)

lemma expand_outputs_snoc:
  "expand_outputs (out @ [\<lparr>Denomination = d, Count = c, LockHeight = l\<rparr>]) = expand_outputs out @ replicate (unat c) d"
  by (simp add: expand_outputs_def)

lemma derive_loop_expand:
  assumes "tot \<le> maxOutputs" "unat maxOutputs < 2 ^ 63"
    and "\<And>d c. denoms d = Some c \<Longrightarrow> unat c < 2 ^ 63"
  shows "expand_outputs (derive_loop denoms maxOutputs lockHeight ds out tot) =
    expand_outputs out @ take (unat maxOutputs - unat tot) (greedy_listing denoms ds)"
  using assms(1)
proof (induction ds arbitrary: out tot)
  case Nil
  then show ?case by (simp add: greedy_listing_def)
next
  case (Cons d ds)
  show ?case
  proof (cases "denoms (word_of_nat d)")
    case None
    with Cons show ?thesis by (simp add: greedy_listing_Cons)
  next
    case (Some count)
    define count' where "count' = (if maxOutputs < tot + count then maxOutputs - tot else count)"
    note c' = clamp_count [OF Cons.prems assms(2) assms(3) [OF Some], folded count'_def]
    note defs = Some greedy_listing_Cons expand_outputs_snoc count'_def [symmetric]
    consider "count = 0" | "count \<noteq> 0" "count' = 0" | "count \<noteq> 0" "count' \<noteq> 0" "maxOutputs \<le> tot + count'"
      | "count \<noteq> 0" "count' \<noteq> 0" "\<not> maxOutputs \<le> tot + count'"
      by blast
    then show ?thesis
    proof cases
      case 1
      with Cons Some show ?thesis by (simp add: greedy_listing_Cons)
    next
      case 2
      then have "unat maxOutputs - unat tot = 0" using c'(1) by (simp add: unat_eq_zero min_def split: if_splits)
      with 2 Some show ?thesis by (simp add: count'_def)
    next
      case 3
      then have "unat maxOutputs - unat tot = unat count'" "unat count' \<le> unat count"
        using c' Cons.prems by (simp_all add: word_le_nat_alt)
      with 3 show ?thesis by (simp add: defs min_def)
    next
      case 4
      then have lt: "unat tot + unat count' < unat maxOutputs" using c'(2) by (simp add: word_le_nat_alt)
      then have "unat count' = unat count" using c'(1) by linarith
      moreover have "tot + count' \<le> maxOutputs" using 4 by simp
      ultimately show ?thesis
        using 4 lt c'(2) Cons.IH [of "tot + count'"] by (simp add: defs)
    qed
  qed
qed

lemma derive_loop_fields:
  "\<forall>o' \<in> set out. LockHeight o' = lockHeight \<and> Count o' \<noteq> 0 \<Longrightarrow>
   o' \<in> set (derive_loop denoms maxOutputs lockHeight ds out tot) \<Longrightarrow>
   LockHeight o' = lockHeight \<and> Count o' \<noteq> 0"
  by (induction denoms maxOutputs lockHeight ds out tot rule: derive_loop.induct)
    (auto simp: Let_def split: option.splits if_splits)

end
