(* ===== verification/UtxoDb.thy ===== *)
theory UtxoDb
  imports QiPrelude
begin

text \<open>
  The database the stores and the decoder share: the tables of \<open>internal/store/migrations\<close> as
  lists of rows, one record field per column the code uses (\<open>zone\<close> keeps its default and is left
  out), and pgx's transactions. Go's \<open>uint64\<close> values go to \<open>BIGINT\<close> columns; the driver refuses a
  value that does not fit (\<open>bigint_args\<close>). \<open>tx_index\<close> is a signed 32-bit column.

  A transaction is the working copy of the database, the number of the next statement and the
  fault oracle \<open>tx_fault\<close>, which may make any statement fail (connection loss, a text the server
  refuses, constraint). \<open>db_exec\<close> is \<open>tx.Exec\<close>, its first argument the \<open>uint64\<close> arguments of the
  statement; \<open>BeginFunc\<close> is \<open>pgx.BeginFunc\<close>: begin, run,
  commit, and on any error roll back, so nothing of the working copy is kept.
\<close>

record utxo =
  tx_hash :: bytes
  tx_index :: i32
  address :: bytes
  denomination :: u8
  lock_height :: u64
  source :: nat
  created_block :: u64
  created_tx :: bytes
  spent_block :: "u64 option"
  spent_tx :: "bytes option"
  spender_pubkey :: "bytes option"
  trim_deadline :: "u64 option"
  trimmed_block :: "u64 option"

record conv_output =
  cv_tx_hash :: bytes
  cv_output_index :: i32
  cv_to_address :: bytes
  cv_denomination :: u8
  cv_block_height :: u64

record block_row =
  br_hash :: string
  br_parent_hash :: string
  br_height :: u64
  br_block_time :: u64
  br_exchange_rate :: "string option"

record db =
  t_blocks :: "block_row list"
  t_meta_tip :: "string option"
  t_utxos :: "utxo list"
  t_convs :: "conv_output list"

definition empty_db :: db where
  "empty_db = \<lparr>t_blocks = [], t_meta_tip = None, t_utxos = [], t_convs = []\<rparr>"

section \<open>Transactions\<close>

record tx =
  tx_db :: db
  tx_stmt :: nat
  tx_fault :: "nat \<Rightarrow> err option"

definition db_exec :: "u64 list \<Rightarrow> (db \<Rightarrow> db \<times> nat) \<Rightarrow> tx \<Rightarrow> err + (nat \<times> tx)" where
  "db_exec args f t =
     bindE (bigint_args args)
       (\<lambda>_. case tx_fault t (tx_stmt t) of
          Some e \<Rightarrow> Inl e
        | None \<Rightarrow> (case f (tx_db t) of (d', n) \<Rightarrow>
            Inr (n, t\<lparr>tx_db := d', tx_stmt := Suc (tx_stmt t)\<rparr>)))"

definition exec_tx :: "string \<Rightarrow> u64 list \<Rightarrow> (db \<Rightarrow> db \<times> nat) \<Rightarrow> tx \<Rightarrow> err + tx" where
  "exec_tx msg args f t = bindE (wrapE msg (db_exec args f t)) (\<lambda>r. Inr (snd r))"

lemma db_exec_Inr:
  "db_exec args f t = Inr r \<longleftrightarrow>
   list_all bigint_fits args \<and> tx_fault t (tx_stmt t) = None \<and>
   r = (snd (f (tx_db t)), t\<lparr>tx_db := fst (f (tx_db t)), tx_stmt := Suc (tx_stmt t)\<rparr>)"
  by (auto simp: db_exec_def bindE_eq_Inr split: option.splits prod.splits)

lemma exec_tx_Inr_iff:
  "exec_tx msg args f t = Inr t' \<longleftrightarrow>
   list_all bigint_fits args \<and> tx_fault t (tx_stmt t) = None \<and>
   t' = t\<lparr>tx_db := fst (f (tx_db t)), tx_stmt := Suc (tx_stmt t)\<rparr>"
  by (auto simp: exec_tx_def bindE_eq_Inr db_exec_Inr)

definition BeginFunc :: "(nat \<Rightarrow> err option) \<Rightarrow> (tx \<Rightarrow> err + tx) \<Rightarrow> db \<Rightarrow> err option \<times> db" where
  "BeginFunc fault body d =
     (case fault 0 of
        Some e \<Rightarrow> (Some e, d)
      | None \<Rightarrow>
          (case body \<lparr>tx_db = d, tx_stmt = 1, tx_fault = fault\<rparr> of
             Inl e \<Rightarrow> (Some e, d)
           | Inr t \<Rightarrow>
               (case fault (tx_stmt t) of
                  Some e \<Rightarrow> (Some e, d)
                | None \<Rightarrow> (None, tx_db t))))"

lemma BeginFunc_failed: "BeginFunc fault body d = (Some e, d') \<Longrightarrow> d' = d"
  by (auto simp: BeginFunc_def split: option.splits sum.splits)

lemma BeginFunc_done:
  "BeginFunc fault body d = (None, d') \<Longrightarrow>
   \<exists>t. body \<lparr>tx_db = d, tx_stmt = 1, tx_fault = fault\<rparr> = Inr t \<and> d' = tx_db t"
  by (auto simp: BeginFunc_def split: option.splits sum.splits)

section \<open>The statements on the UTXO tables\<close>

definition utxo_key :: "utxo \<Rightarrow> bytes \<times> i32 \<times> u64" where
  "utxo_key r = (tx_hash r, tx_index r, created_block r)"

definition conv_key :: "conv_output \<Rightarrow> bytes \<times> i32" where
  "conv_key r = (cv_tx_hash r, cv_output_index r)"

definition row_unspent :: "utxo \<Rightarrow> bool" where
  "row_unspent r \<longleftrightarrow> spent_block r = None \<and> trimmed_block r = None"

text \<open>\<open>UPDATE utxos SET spent_... WHERE tx_hash = .. AND tx_index = .. AND\<close> unspent, untrimmed.\<close>

definition spend_hit :: "bytes \<Rightarrow> i32 \<Rightarrow> utxo \<Rightarrow> bool" where
  "spend_hit prevHash idx r \<longleftrightarrow> tx_hash r = prevHash \<and> tx_index r = idx \<and> row_unspent r"

definition stmt_mark_spent ::
  "u64 \<Rightarrow> bytes \<Rightarrow> bytes option \<Rightarrow> bytes \<Rightarrow> i32 \<Rightarrow> db \<Rightarrow> db \<times> nat" where
  "stmt_mark_spent h txHash pubkey prevHash idx d =
     (d\<lparr>t_utxos := upd_where (spend_hit prevHash idx)
          (\<lambda>r. r\<lparr>spent_block := Some h, spent_tx := Some txHash, spender_pubkey := pubkey\<rparr>)
          (t_utxos d)\<rparr>,
      length (filter (spend_hit prevHash idx) (t_utxos d)))"

definition stmt_insert_utxo :: "utxo \<Rightarrow> db \<Rightarrow> db \<times> nat" where
  "stmt_insert_utxo r d =
     (d\<lparr>t_utxos := ins_nc utxo_key r (t_utxos d)\<rparr>,
      if utxo_key r \<in> utxo_key ` set (t_utxos d) then 0 else 1)"

definition stmt_insert_conv :: "conv_output \<Rightarrow> db \<Rightarrow> db \<times> nat" where
  "stmt_insert_conv r d =
     (d\<lparr>t_convs := ins_nc conv_key r (t_convs d)\<rparr>,
      if conv_key r \<in> conv_key ` set (t_convs d) then 0 else 1)"

definition trim_hit :: "u64 \<Rightarrow> utxo \<Rightarrow> bool" where
  "trim_hit h r \<longleftrightarrow> trim_deadline r = Some h \<and> row_unspent r \<and> lock_height r = 0"

definition stmt_sweep :: "u64 \<Rightarrow> db \<Rightarrow> db \<times> nat" where
  "stmt_sweep h d =
     (d\<lparr>t_utxos := upd_where (trim_hit h) (\<lambda>r. r\<lparr>trimmed_block := Some h\<rparr>) (t_utxos d)\<rparr>,
      length (filter (trim_hit h) (t_utxos d)))"

definition stmt_untrim :: "u64 \<Rightarrow> db \<Rightarrow> db \<times> nat" where
  "stmt_untrim h d =
     (d\<lparr>t_utxos := upd_where (\<lambda>r. trimmed_block r = Some h) (\<lambda>r. r\<lparr>trimmed_block := None\<rparr>) (t_utxos d)\<rparr>,
      length (filter (\<lambda>r. trimmed_block r = Some h) (t_utxos d)))"

definition stmt_unspend :: "u64 \<Rightarrow> db \<Rightarrow> db \<times> nat" where
  "stmt_unspend h d =
     (d\<lparr>t_utxos := upd_where (\<lambda>r. spent_block r = Some h)
          (\<lambda>r. r\<lparr>spent_block := None, spent_tx := None, spender_pubkey := None\<rparr>) (t_utxos d)\<rparr>,
      length (filter (\<lambda>r. spent_block r = Some h) (t_utxos d)))"

definition stmt_delete_created :: "u64 \<Rightarrow> db \<Rightarrow> db \<times> nat" where
  "stmt_delete_created h d =
     (d\<lparr>t_utxos := del_where (\<lambda>r. created_block r = h) (t_utxos d)\<rparr>,
      length (filter (\<lambda>r. created_block r = h) (t_utxos d)))"

definition stmt_delete_conv :: "u64 \<Rightarrow> db \<Rightarrow> db \<times> nat" where
  "stmt_delete_conv h d =
     (d\<lparr>t_convs := del_where (\<lambda>r. cv_block_height r = h) (t_convs d)\<rparr>,
      length (filter (\<lambda>r. cv_block_height r = h) (t_convs d)))"

text \<open>The \<open>uint64\<close> arguments of an insert.\<close>

definition utxo_args :: "utxo \<Rightarrow> u64 list" where
  "utxo_args r = [lock_height r, created_block r] @ (case trim_deadline r of None \<Rightarrow> [] | Some d \<Rightarrow> [d])"

section \<open>Well-formed rows\<close>

text \<open>
  \<open>row_ok\<close>: the spending columns are filled together or not at all; no row is both spent and
  trimmed; a trimmed row was trimmed at its deadline and was not locked; the lock, the height and the
  deadline fit into their columns.
\<close>

definition row_ok :: "utxo \<Rightarrow> bool" where
  "row_ok r \<longleftrightarrow>
     (spent_block r = None \<longrightarrow> spent_tx r = None \<and> spender_pubkey r = None) \<and>
     (spent_block r \<noteq> None \<longrightarrow> spent_tx r \<noteq> None \<and> trimmed_block r = None) \<and>
     (\<forall>h. trimmed_block r = Some h \<longrightarrow> trim_deadline r = Some h \<and> lock_height r = 0) \<and>
     list_all bigint_fits (utxo_args r)"

lemma utxo_args_update [simp]:
  "utxo_args (r\<lparr>spent_block := x, spent_tx := y, spender_pubkey := z\<rparr>) = utxo_args r"
  "utxo_args (r\<lparr>trimmed_block := w\<rparr>) = utxo_args r"
  by (simp_all add: utxo_args_def)

definition db_ok :: "db \<Rightarrow> bool" where
  "db_ok d \<longleftrightarrow>
     (\<forall>r \<in> set (t_utxos d). row_ok r) \<and>
     distinct (map utxo_key (t_utxos d)) \<and> distinct (map conv_key (t_convs d))"

lemma db_ok_empty: "db_ok empty_db"
  by (simp add: db_ok_def empty_db_def)

lemma db_ok_cong: "t_utxos d' = t_utxos d \<Longrightarrow> t_convs d' = t_convs d \<Longrightarrow> db_ok d' = db_ok d"
  by (simp add: db_ok_def)

lemma db_ok_mark_spent: "db_ok d \<Longrightarrow> db_ok (fst (stmt_mark_spent h txh pk prev idx d))"
  by (auto simp: db_ok_def stmt_mark_spent_def set_upd_where spend_hit_def row_unspent_def row_ok_def
      map_key_upd_where utxo_key_def)

lemma db_ok_sweep: "db_ok d \<Longrightarrow> db_ok (fst (stmt_sweep h d))"
  by (auto simp: db_ok_def stmt_sweep_def set_upd_where trim_hit_def row_unspent_def row_ok_def
      map_key_upd_where utxo_key_def)

lemma db_ok_insert_utxo: "db_ok d \<Longrightarrow> row_ok r \<Longrightarrow> db_ok (fst (stmt_insert_utxo r d))"
  by (auto simp: db_ok_def stmt_insert_utxo_def set_ins_nc ins_nc_distinct split: if_splits)

lemma db_ok_insert_conv: "db_ok d \<Longrightarrow> db_ok (fst (stmt_insert_conv r d))"
  by (auto simp: db_ok_def stmt_insert_conv_def ins_nc_distinct)

lemma db_ok_untrim: "db_ok d \<Longrightarrow> db_ok (fst (stmt_untrim h d))"
  by (auto simp: db_ok_def stmt_untrim_def set_upd_where row_ok_def map_key_upd_where utxo_key_def)

lemma db_ok_unspend: "db_ok d \<Longrightarrow> db_ok (fst (stmt_unspend h d))"
  by (auto simp: db_ok_def stmt_unspend_def set_upd_where row_ok_def map_key_upd_where utxo_key_def)

lemma db_ok_delete_created: "db_ok d \<Longrightarrow> db_ok (fst (stmt_delete_created h d))"
  by (auto simp: db_ok_def stmt_delete_created_def set_del_where distinct_map_del_where)

lemma db_ok_delete_conv: "db_ok d \<Longrightarrow> db_ok (fst (stmt_delete_conv h d))"
  by (auto simp: db_ok_def stmt_delete_conv_def distinct_map_del_where)

lemmas db_ok_stmts =
  db_ok_mark_spent db_ok_sweep db_ok_insert_utxo db_ok_insert_conv db_ok_untrim db_ok_unspend
  db_ok_delete_created db_ok_delete_conv

end
