(* ===== verification/Decoder.thy ===== *)
theory Decoder
  imports RpcBody QiDecode UtxoDb
begin

text \<open>
  \<open>internal/decoder/decoder.go\<close>: the decoder of Qi UTXO events, run inside the store's
  transaction. Each function takes the \<open>tx\<close> and returns it updated, or the error on which the
  Go code returns; \<open>DecodeApply\<close> and \<open>DecodeRollback\<close> are the two methods of
  \<open>store.Decoder\<close>. Logging is left out; an error keeps the text of its message without the
  formatted arguments.

  The second half reads the code as events: \<open>block_events\<close> lists what a block does to the UTXO
  tables, \<open>emulates\<close> relates a piece of the code to its events, and \<open>applyBlock_emulates\<close>
  composes them for the whole block. \<open>rollback_apply\<close> is the inverse law.
\<close>

section \<open>Decoding of hashes and addresses\<close>

definition decodeHash :: "string \<Rightarrow> err + bytes" where
  "decodeHash h =
     bindE (hex_DecodeString (trim0x h))
       (\<lambda>b. if length b \<noteq> 32 then Inl (Msg ''expected 32 bytes'') else Inr b)"

definition decodeAddr :: "string \<Rightarrow> err + bytes" where
  "decodeAddr h =
     bindE (hex_DecodeString (trim0x h))
       (\<lambda>b. if length b \<noteq> 20 then Inl (Msg ''expected 20 bytes'') else Inr b)"

text \<open>A nil result is \<open>None\<close>: the driver stores it as NULL.\<close>

definition decodeHex :: "string \<Rightarrow> err + bytes option" where
  "decodeHex h =
     (let h' = trim0x h in
      if h' = [] then Inr None else bindE (hex_DecodeString h') (\<lambda>b. Inr (Some b)))"

definition isQiScopeBytes :: "bytes \<Rightarrow> bool" where
  "isQiScopeBytes addr \<longleftrightarrow> length addr = 20 \<and> 0x80 \<le> addr ! 1"

definition nullIfZero :: "u64 \<Rightarrow> u64 option" where
  "nullIfZero v = (if v = 0 then None else Some v)"

text \<open>\<open>(*big.Int).Uint64\<close>: the low 64 bits of the absolute value.\<close>

definition big_Uint64 :: "int \<Rightarrow> u64" where
  "big_Uint64 v = word_of_nat (nat \<bar>v\<bar>)"

section \<open>Rows\<close>

definition new_utxo ::
  "goquai \<Rightarrow> bytes \<Rightarrow> i32 \<Rightarrow> bytes \<Rightarrow> u8 \<Rightarrow> u64 \<Rightarrow> nat \<Rightarrow> u64 \<Rightarrow> utxo" where
  "new_utxo g txHash idx addr denom lockHeight src h =
     \<lparr>tx_hash = txHash, tx_index = idx, address = addr, denomination = denom,
      lock_height = lockHeight, source = src, created_block = h, created_tx = txHash,
      spent_block = None, spent_tx = None, spender_pubkey = None,
      trim_deadline = nullIfZero (TrimDeadline g denom h), trimmed_block = None\<rparr>"

definition insert_utxo :: "string \<Rightarrow> utxo \<Rightarrow> tx \<Rightarrow> err + tx" where
  "insert_utxo msg r t = exec_tx msg (utxo_args r) (stmt_insert_utxo r) t"

definition out_lock :: "raw_txout \<Rightarrow> u64" where
  "out_lock out =
     (case out_Lock out of
        None \<Rightarrow> 0
      | Some l \<Rightarrow> (case V l of None \<Rightarrow> 0 | Some v \<Rightarrow> big_Uint64 v))"

section \<open>Qi transactions\<close>

definition apply_input :: "u64 \<Rightarrow> bytes \<Rightarrow> raw_txin \<Rightarrow> tx \<Rightarrow> err + tx" where
  "apply_input h txHash inp t =
     bindE (wrapE ''input outpoint hash'' (decodeHash (op_TxHash (in_PreviousOutPoint inp))))
       (\<lambda>prevHash. bindE (wrapE ''input pubkey'' (decodeHex (in_PubKey inp)))
          (\<lambda>pubkey. exec_tx ''mark spent'' [h]
             (stmt_mark_spent h txHash pubkey prevHash
                (ucast (op_Index (in_PreviousOutPoint inp)))) t))"

definition apply_output ::
  "goquai \<Rightarrow> u64 \<Rightarrow> bytes \<Rightarrow> nat \<times> raw_txout \<Rightarrow> tx \<Rightarrow> err + tx" where
  "apply_output g h txHash io t =
     (case io of (idx, out) \<Rightarrow>
        bindE (wrapE ''output address'' (decodeAddr (out_Address out)))
          (\<lambda>addrBytes.
             if \<not> isQiScopeBytes addrBytes
             then exec_tx ''conversion output insert'' [h]
                    (stmt_insert_conv
                       \<lparr>cv_tx_hash = txHash, cv_output_index = word_of_nat idx,
                        cv_to_address = addrBytes, cv_denomination = ucast (out_Denomination out),
                        cv_block_height = h\<rparr>) t
             else insert_utxo ''utxo insert''
                    (new_utxo g txHash (word_of_nat idx) addrBytes
                       (ucast (out_Denomination out)) (out_lock out) SourceQiTx h) t))"

definition apply_qi_tx :: "goquai \<Rightarrow> u64 \<Rightarrow> raw_tx \<Rightarrow> tx \<Rightarrow> err + tx" where
  "apply_qi_tx g h raw t =
     (if tx_Type raw \<noteq> QiTxType g then Inr t
      else bindE (wrapE ''qi tx hash'' (decodeHash (tx_Hash raw)))
        (\<lambda>txHash. bindE (foldE (apply_input h txHash) (tx_Inputs raw) t)
           (foldE (apply_output g h txHash) (List.enumerate 0 (tx_Outputs raw)))))"

section \<open>ETXs\<close>

text \<open>
  The two nested loops that insert derived outputs; \<open>idx\<close> is an \<open>int32\<close> counter beside the
  transaction.
\<close>

definition insert_one ::
  "goquai \<Rightarrow> string \<Rightarrow> nat \<Rightarrow> u64 \<Rightarrow> bytes \<Rightarrow> bytes \<Rightarrow> derived_output \<Rightarrow> i32 \<times> tx \<Rightarrow> err + (i32 \<times> tx)" where
  "insert_one g msg src h etxHash toBytes o' s =
     (case s of (idx, t) \<Rightarrow>
        bindE (insert_utxo msg
                 (new_utxo g etxHash idx toBytes (Denomination o') (LockHeight o') src h) t)
          (\<lambda>t'. Inr (idx + 1, t')))"

definition insert_group ::
  "goquai \<Rightarrow> string \<Rightarrow> nat \<Rightarrow> u64 \<Rightarrow> bytes \<Rightarrow> bytes \<Rightarrow> derived_output \<Rightarrow> i32 \<times> tx \<Rightarrow> err + (i32 \<times> tx)" where
  "insert_group g msg src h etxHash toBytes o' s =
     foldE (\<lambda>j. insert_one g msg src h etxHash toBytes o') [0..<unat (Count o')] s"

definition insert_outputs ::
  "goquai \<Rightarrow> string \<Rightarrow> nat \<Rightarrow> u64 \<Rightarrow> bytes \<Rightarrow> bytes \<Rightarrow> derived_output list \<Rightarrow> tx \<Rightarrow> err + tx" where
  "insert_outputs g msg src h etxHash toBytes outputs t =
     bindE (foldE (insert_group g msg src h etxHash toBytes) outputs (0, t)) (\<lambda>s. Inr (snd s))"

definition insertCoinbaseETXOutputs ::
  "goquai \<Rightarrow> bytes \<Rightarrow> bytes \<Rightarrow> raw_tx \<Rightarrow> u64 \<Rightarrow> tx \<Rightarrow> err + tx" where
  "insertCoinbaseETXOutputs g etxHash toBytes raw blockHeight t =
     (case tx_Input raw of
        None \<Rightarrow> Inr t
      | Some input \<Rightarrow>
          (case input of
             [] \<Rightarrow> Inr t
           | lockupByte # _ \<Rightarrow>
               if 4 \<le> unat lockupByte then Inr t
               else (case tx_Value raw of
                       None \<Rightarrow> Inr t
                     | Some b \<Rightarrow>
                         (case V b of
                            None \<Rightarrow> Inr t
                          | Some value \<Rightarrow>
                              insert_outputs g ''coinbase utxo insert idx'' SourceCoinbaseETX
                                blockHeight etxHash toBytes
                                (CoinbaseETXOutputs g value lockupByte blockHeight) t))))"

definition insertConversionETXOutputs ::
  "goquai \<Rightarrow> bytes \<Rightarrow> bytes \<Rightarrow> int \<Rightarrow> u64 \<Rightarrow> u64 \<Rightarrow> tx \<Rightarrow> err + tx" where
  "insertConversionETXOutputs g etxHash toBytes value gasLimit blockHeight t =
     insert_outputs g ''conversion utxo insert idx'' SourceConversionETX blockHeight etxHash toBytes
       (ConversionETXOutputs g value blockHeight gasLimit) t"

definition conversion_value :: "raw_tx \<Rightarrow> int option" where
  "conversion_value raw = (case tx_Value raw of None \<Rightarrow> None | Some b \<Rightarrow> V b)"

definition gas_limit :: "raw_tx \<Rightarrow> u64" where
  "gas_limit raw = (case tx_Gas raw of None \<Rightarrow> 0 | Some x \<Rightarrow> x)"

definition apply_etx :: "goquai \<Rightarrow> u64 \<Rightarrow> raw_tx \<Rightarrow> tx \<Rightarrow> err + tx" where
  "apply_etx g h raw t =
     (if tx_Type raw \<noteq> ExternalTxType g then Inr t
      else case (tx_EtxType raw, tx_To raw) of
        (Some etxType, Some to) \<Rightarrow>
          bindE (wrapE ''etx to address'' (decodeAddr to))
            (\<lambda>toBytes.
               if \<not> isQiScopeBytes toBytes then Inr t
               else bindE (wrapE ''etx hash'' (decodeHash (tx_Hash raw)))
                 (\<lambda>etxHash.
                    if etxType = CoinbaseType g
                    then insertCoinbaseETXOutputs g etxHash toBytes raw h t
                    else if etxType = ConversionType g
                    then (case conversion_value raw of
                            None \<Rightarrow> Inr t
                          | Some v \<Rightarrow>
                              insertConversionETXOutputs g etxHash toBytes v (gas_limit raw) h t)
                    else Inr t))
      | _ \<Rightarrow> Inr t)"

section \<open>Blocks\<close>

definition sweepTrims :: "u64 \<Rightarrow> tx \<Rightarrow> err + (nat \<times> tx)" where
  "sweepTrims blockHeight t = db_exec [blockHeight] (stmt_sweep blockHeight) t"

definition applyBlock :: "goquai \<Rightarrow> block \<Rightarrow> tx \<Rightarrow> err + tx" where
  "applyBlock g b t =
     bindE (wrapE ''parse body'' (ParseBody (Raw b)))
       (\<lambda>body. bindE (foldE (apply_qi_tx g (Height b)) (Transactions body) t)
          (\<lambda>t1. bindE (foldE (apply_etx g (Height b)) (Transactions body) t1)
             (\<lambda>t2. bindE (wrapE ''trim sweep'' (sweepTrims (Height b) t2))
                (\<lambda>r. Inr (snd r)))))"

definition DecodeApply :: "goquai \<Rightarrow> block list \<Rightarrow> tx \<Rightarrow> err + tx" where
  "DecodeApply g blocks t = foldE (\<lambda>b t. wrapE ''block'' (applyBlock g b t)) blocks t"

definition rollbackBlock :: "block \<Rightarrow> tx \<Rightarrow> err + tx" where
  "rollbackBlock b t =
     bindE (exec_tx ''un-trim'' [Height b] (stmt_untrim (Height b)) t)
       (\<lambda>t1. bindE (exec_tx ''un-spend'' [Height b] (stmt_unspend (Height b)) t1)
          (\<lambda>t2. bindE (exec_tx ''delete created utxos'' [Height b] (stmt_delete_created (Height b)) t2)
             (exec_tx ''delete conversion outputs'' [Height b] (stmt_delete_conv (Height b)))))"

definition DecodeRollback :: "block list \<Rightarrow> tx \<Rightarrow> err + tx" where
  "DecodeRollback blocks t = foldE (\<lambda>b t. wrapE ''rollback block'' (rollbackBlock b t)) blocks t"

section \<open>Blocks as events\<close>

text \<open>
  What a block does to the UTXO tables, as a list of events: spends, creations and conversions of
  its Qi transactions, creations of its inbound ETXs, then the sweep. \<open>run_events\<close> replays them.
\<close>

datatype event =
    Spend bytes "bytes option" bytes i32
  | Create utxo
  | Convert conv_output
  | Sweep

fun apply_event :: "u64 \<Rightarrow> event \<Rightarrow> db \<Rightarrow> db" where
  "apply_event h (Spend txHash pubkey prevHash idx) d =
     fst (stmt_mark_spent h txHash pubkey prevHash idx d)"
| "apply_event h (Create r) d = fst (stmt_insert_utxo r d)"
| "apply_event h (Convert r) d = fst (stmt_insert_conv r d)"
| "apply_event h Sweep d = fst (stmt_sweep h d)"

text \<open>An event exists if the driver accepts the numbers of its statement.\<close>

fun event_args :: "u64 \<Rightarrow> event \<Rightarrow> u64 list" where
  "event_args h (Create r) = utxo_args r"
| "event_args h (Convert r) = [cv_block_height r]"
| "event_args h _ = [h]"

definition event_of :: "u64 \<Rightarrow> event \<Rightarrow> err + event list" where
  "event_of h ev = bindE (bigint_args (event_args h ev)) (\<lambda>_. Inr [ev])"

definition run_events :: "u64 \<Rightarrow> event list \<Rightarrow> db \<Rightarrow> db" where
  "run_events h evs d = fold (apply_event h) evs d"

definition seqE :: "err + 'a list \<Rightarrow> err + 'a list \<Rightarrow> err + 'a list" where
  "seqE a b = bindE a (\<lambda>xs. bindE b (\<lambda>ys. Inr (xs @ ys)))"

definition concat_mapE :: "('a \<Rightarrow> err + 'b list) \<Rightarrow> 'a list \<Rightarrow> err + 'b list" where
  "concat_mapE f xs = bindE (mapE f xs) (\<lambda>yss. Inr (concat yss))"

definition input_event :: "u64 \<Rightarrow> bytes \<Rightarrow> raw_txin \<Rightarrow> err + event list" where
  "input_event h txHash inp =
     bindE (decodeHash (op_TxHash (in_PreviousOutPoint inp)))
       (\<lambda>prevHash. bindE (decodeHex (in_PubKey inp))
          (\<lambda>pubkey. event_of h (Spend txHash pubkey prevHash (ucast (op_Index (in_PreviousOutPoint inp))))))"

definition output_event :: "goquai \<Rightarrow> u64 \<Rightarrow> bytes \<Rightarrow> nat \<times> raw_txout \<Rightarrow> err + event list" where
  "output_event g h txHash io =
     (case io of (idx, out) \<Rightarrow>
        bindE (decodeAddr (out_Address out))
          (\<lambda>addrBytes.
             event_of h
                 (if isQiScopeBytes addrBytes
                  then Create (new_utxo g txHash (word_of_nat idx) addrBytes
                                 (ucast (out_Denomination out)) (out_lock out) SourceQiTx h)
                  else Convert \<lparr>cv_tx_hash = txHash, cv_output_index = word_of_nat idx,
                         cv_to_address = addrBytes, cv_denomination = ucast (out_Denomination out),
                         cv_block_height = h\<rparr>)))"

definition qi_tx_events :: "goquai \<Rightarrow> u64 \<Rightarrow> raw_tx \<Rightarrow> err + event list" where
  "qi_tx_events g h raw =
     (if tx_Type raw \<noteq> QiTxType g then Inr []
      else bindE (decodeHash (tx_Hash raw))
        (\<lambda>txHash. seqE (concat_mapE (input_event h txHash) (tx_Inputs raw))
           (concat_mapE (output_event g h txHash) (List.enumerate 0 (tx_Outputs raw)))))"

definition flat_outputs :: "derived_output list \<Rightarrow> derived_output list" where
  "flat_outputs os = concat (map (\<lambda>o'. replicate (unat (Count o')) o') os)"

definition derived_events ::
  "goquai \<Rightarrow> nat \<Rightarrow> u64 \<Rightarrow> bytes \<Rightarrow> bytes \<Rightarrow> derived_output list \<Rightarrow> err + event list" where
  "derived_events g src h etxHash toBytes os =
     concat_mapE (\<lambda>(i, o'). event_of h (Create (new_utxo g etxHash (word_of_nat i) toBytes
                                (Denomination o') (LockHeight o') src h)))
       (List.enumerate 0 (flat_outputs os))"

definition coinbase_outputs :: "goquai \<Rightarrow> u64 \<Rightarrow> raw_tx \<Rightarrow> derived_output list" where
  "coinbase_outputs g h raw =
     (case (tx_Input raw, conversion_value raw) of
        (Some (lockupByte # _), Some value) \<Rightarrow>
          if 4 \<le> unat lockupByte then [] else CoinbaseETXOutputs g value lockupByte h
      | _ \<Rightarrow> [])"

definition etx_events :: "goquai \<Rightarrow> u64 \<Rightarrow> raw_tx \<Rightarrow> err + event list" where
  "etx_events g h raw =
     (if tx_Type raw \<noteq> ExternalTxType g then Inr []
      else case (tx_EtxType raw, tx_To raw) of
        (Some etxType, Some to) \<Rightarrow>
          bindE (decodeAddr to)
            (\<lambda>toBytes.
               if \<not> isQiScopeBytes toBytes then Inr []
               else bindE (decodeHash (tx_Hash raw))
                 (\<lambda>etxHash.
                    if etxType = CoinbaseType g
                    then derived_events g SourceCoinbaseETX h etxHash toBytes (coinbase_outputs g h raw)
                    else if etxType = ConversionType g
                    then (case conversion_value raw of
                            None \<Rightarrow> Inr []
                          | Some v \<Rightarrow> derived_events g SourceConversionETX h etxHash toBytes
                                       (ConversionETXOutputs g v h (gas_limit raw)))
                    else Inr []))
      | _ \<Rightarrow> Inr [])"

definition block_events :: "goquai \<Rightarrow> block \<Rightarrow> err + event list" where
  "block_events g b =
     bindE (ParseBody (Raw b))
       (\<lambda>body. seqE (concat_mapE (qi_tx_events g (Height b)) (Transactions body))
          (seqE (concat_mapE (etx_events g (Height b)) (Transactions body)) (event_of (Height b) Sweep)))"

section \<open>The code emulates its events\<close>

definition no_fault :: "tx \<Rightarrow> bool" where
  "no_fault t \<longleftrightarrow> tx_fault t = (\<lambda>_. None)"

text \<open>
  A step that returns did exactly its events; a step whose events exist returns when no statement
  fails.
\<close>

definition emulates :: "u64 \<Rightarrow> (tx \<Rightarrow> err + tx) \<Rightarrow> err + event list \<Rightarrow> bool" where
  "emulates h c sp \<longleftrightarrow>
     (\<forall>t t'. c t = Inr t' \<longrightarrow>
        (\<exists>evs. sp = Inr evs \<and> tx_db t' = run_events h evs (tx_db t) \<and> tx_fault t' = tx_fault t)) \<and>
     (\<forall>t evs. sp = Inr evs \<and> no_fault t \<longrightarrow> (\<exists>t'. c t = Inr t'))"

lemma emulatesD:
  "emulates h c sp \<Longrightarrow> c t = Inr t' \<Longrightarrow>
   \<exists>evs. sp = Inr evs \<and> tx_db t' = run_events h evs (tx_db t) \<and> tx_fault t' = tx_fault t"
  by (auto simp: emulates_def)

lemma emulates_total: "emulates h c sp \<Longrightarrow> sp = Inr evs \<Longrightarrow> no_fault t \<Longrightarrow> \<exists>t'. c t = Inr t'"
  by (auto simp: emulates_def)

lemma run_events_simps [simp]:
  "run_events h [] d = d"
  "run_events h (ev # evs) d = run_events h evs (apply_event h ev d)"
  "run_events h (evs @ evs') d = run_events h evs' (run_events h evs d)"
  by (simp_all add: run_events_def)

lemma emulates_skip: "emulates h Inr (Inr [])"
  by (simp add: emulates_def)

lemma event_of_Inr: "event_of h ev = Inr evs \<longleftrightarrow> list_all bigint_fits (event_args h ev) \<and> evs = [ev]"
  by (auto simp: event_of_def bindE_eq_Inr)

lemma event_of_fits: "list_all bigint_fits (event_args h ev) \<Longrightarrow> event_of h ev = Inr [ev]"
  by (simp add: event_of_Inr)

lemma emulates_exec:
  "(\<And>d. fst (f d) = apply_event h ev d) \<Longrightarrow> args = event_args h ev \<Longrightarrow>
   emulates h (exec_tx msg args f) (event_of h ev)"
  by (auto simp: emulates_def exec_tx_Inr_iff event_of_Inr no_fault_def)

lemma emulates_insert: "emulates h (insert_utxo msg r) (event_of h (Create r))"
  unfolding insert_utxo_def [abs_def] by (rule emulates_exec) simp_all

lemma emulates_pure:
  "(\<And>x. r = Inr x \<Longrightarrow> emulates h (c x) (sp x)) \<Longrightarrow>
   emulates h (\<lambda>t. bindE (wrapE m r) (\<lambda>x. c x t)) (bindE r sp)"
  by (cases r) (auto simp: emulates_def)

lemma emulates_seq:
  assumes "emulates h c1 sp1" "emulates h c2 sp2"
  shows "emulates h (\<lambda>t. bindE (c1 t) c2) (seqE sp1 sp2)"
  unfolding emulates_def
proof (intro conjI allI impI)
  fix t t' assume "bindE (c1 t) c2 = Inr t'"
  then obtain t1 where t1: "c1 t = Inr t1" "c2 t1 = Inr t'" by (auto simp: bindE_eq_Inr)
  from emulatesD [OF assms(1) t1(1)] emulatesD [OF assms(2) t1(2)]
  show "\<exists>evs. seqE sp1 sp2 = Inr evs \<and> tx_db t' = run_events h evs (tx_db t) \<and> tx_fault t' = tx_fault t"
    by (auto simp: seqE_def)
next
  fix t evs assume a: "seqE sp1 sp2 = Inr evs \<and> no_fault t"
  then obtain xs ys where sp: "sp1 = Inr xs" "sp2 = Inr ys" by (auto simp: seqE_def bindE_eq_Inr)
  from emulates_total [OF assms(1) sp(1)] a obtain t1 where t1: "c1 t = Inr t1" by blast
  with emulatesD [OF assms(1) t1] a have "no_fault t1" by (auto simp: no_fault_def)
  with emulates_total [OF assms(2) sp(2)] t1 show "\<exists>t'. bindE (c1 t) c2 = Inr t'" by simp
qed

lemma concat_mapE_simps [simp]:
  "concat_mapE f [] = Inr []"
  "concat_mapE f (x # xs) = seqE (f x) (concat_mapE f xs)"
  by (simp add: concat_mapE_def)
    (cases "f x"; cases "mapE f xs"; simp add: concat_mapE_def seqE_def)

lemma emulates_foldE:
  "(\<And>x. x \<in> set xs \<Longrightarrow> emulates h (c x) (sp x)) \<Longrightarrow> emulates h (foldE c xs) (concat_mapE sp xs)"
proof (induction xs)
  case Nil
  have "foldE c [] = Inr" by (rule ext) simp
  with emulates_skip show ?case by simp
next
  case (Cons x xs)
  have "foldE c (x # xs) = (\<lambda>t. bindE (c x t) (foldE c xs))" by (rule ext) simp
  with Cons emulates_seq [of h "c x" "sp x" "foldE c xs" "concat_mapE sp xs"] show ?case by simp
qed

lemma apply_input_emulates: "emulates h (apply_input h txHash inp) (input_event h txHash inp)"
  unfolding apply_input_def [abs_def] input_event_def
  by (intro emulates_pure emulates_exec) simp_all

lemma apply_output_emulates: "emulates h (apply_output g h txHash io) (output_event g h txHash io)"
  unfolding apply_output_def [abs_def] output_event_def
  by (cases io) (auto intro!: emulates_pure emulates_exec emulates_insert)

lemma apply_qi_tx_emulates: "emulates h (apply_qi_tx g h raw) (qi_tx_events g h raw)"
proof (cases "tx_Type raw = QiTxType g")
  case True
  then show ?thesis
    unfolding apply_qi_tx_def [abs_def] qi_tx_events_def
    by (auto intro!: emulates_pure emulates_seq emulates_foldE apply_input_emulates apply_output_emulates)
next
  case False
  then have "apply_qi_tx g h raw = Inr" "qi_tx_events g h raw = Inr []"
    by (auto simp: apply_qi_tx_def qi_tx_events_def)
  then show ?thesis by (simp add: emulates_skip)
qed

subsection \<open>The nested loops of the ETX inserts\<close>

definition insert_at ::
  "goquai \<Rightarrow> string \<Rightarrow> nat \<Rightarrow> u64 \<Rightarrow> bytes \<Rightarrow> bytes \<Rightarrow> nat \<times> derived_output \<Rightarrow> tx \<Rightarrow> err + tx" where
  "insert_at g msg src h etxHash toBytes io t =
     (case io of (i, o') \<Rightarrow>
        insert_utxo msg (new_utxo g etxHash (word_of_nat i) toBytes
                       (Denomination o') (LockHeight o') src h) t)"

lemma insert_group_flat:
  "foldE (\<lambda>j. insert_one g msg src h etxHash toBytes o') js (word_of_nat n, t) =
   bindE (foldE (insert_at g msg src h etxHash toBytes)
            (List.enumerate n (replicate (length js) o')) t)
     (\<lambda>t'. Inr (word_of_nat (n + length js), t'))"
proof (induction js arbitrary: n t)
  case (Cons j js)
  show ?case
  proof (cases "insert_utxo msg (new_utxo g etxHash (word_of_nat n) toBytes
      (Denomination o') (LockHeight o') src h) t")
    case (Inr t1)
    have "insert_one g msg src h etxHash toBytes o' (word_of_nat n, t) = Inr (word_of_nat (Suc n), t1)"
      using Inr by (simp add: insert_one_def add.commute)
    moreover have "insert_at g msg src h etxHash toBytes (n, o') t = Inr t1"
      using Inr by (simp add: insert_at_def)
    ultimately show ?thesis using Cons [of "Suc n" t1] by (simp del: of_nat_Suc)
  qed (simp add: insert_one_def insert_at_def)
qed simp

lemma insert_outputs_flat_aux:
  "foldE (insert_group g msg src h etxHash toBytes) os (word_of_nat n, t) =
   bindE (foldE (insert_at g msg src h etxHash toBytes) (List.enumerate n (flat_outputs os)) t)
     (\<lambda>t'. Inr (word_of_nat (n + length (flat_outputs os)), t'))"
proof (induction os arbitrary: n t)
  case (Cons o' os)
  let ?k = "unat (Count o')"
  have fl: "flat_outputs (o' # os) = replicate ?k o' @ flat_outputs os"
    by (simp add: flat_outputs_def)
  have grp: "insert_group g msg src h etxHash toBytes o' (word_of_nat n, t) =
    bindE (foldE (insert_at g msg src h etxHash toBytes) (List.enumerate n (replicate ?k o')) t)
      (\<lambda>t'. Inr (word_of_nat (n + ?k), t'))"
    using insert_group_flat [of g msg src h etxHash toBytes o' "[0..<?k]" n t]
    by (simp add: insert_group_def)
  show ?case
    by (cases "foldE (insert_at g msg src h etxHash toBytes) (List.enumerate n (replicate ?k o')) t")
      (simp_all only: foldE.simps grp fl bindE_Inl bindE_Inr enumerate_append_eq foldE_append
        Cons length_append length_replicate add.assoc)
qed (simp add: flat_outputs_def)

lemma insert_outputs_flat:
  "insert_outputs g msg src h etxHash toBytes os =
   foldE (insert_at g msg src h etxHash toBytes) (List.enumerate 0 (flat_outputs os))"
proof
  fix t
  show "insert_outputs g msg src h etxHash toBytes os t =
    foldE (insert_at g msg src h etxHash toBytes) (List.enumerate 0 (flat_outputs os)) t"
    using insert_outputs_flat_aux [of g msg src h etxHash toBytes os 0 t]
    by (cases "foldE (insert_at g msg src h etxHash toBytes) (List.enumerate 0 (flat_outputs os)) t")
      (simp_all add: insert_outputs_def)
qed

lemma insert_outputs_emulates:
  "emulates h (insert_outputs g msg src h etxHash toBytes os)
     (derived_events g src h etxHash toBytes os)"
  unfolding insert_outputs_flat derived_events_def
  by (rule emulates_foldE) (auto simp: insert_at_def [abs_def] split: prod.splits intro!: emulates_insert)

lemma derived_events_Nil: "derived_events g src h etxHash toBytes [] = Inr []"
  by (simp add: derived_events_def flat_outputs_def)

lemma coinbase_emulates:
  "emulates h (insertCoinbaseETXOutputs g etxHash toBytes raw h)
     (derived_events g SourceCoinbaseETX h etxHash toBytes (coinbase_outputs g h raw))"
  unfolding insertCoinbaseETXOutputs_def [abs_def] coinbase_outputs_def conversion_value_def
  using insert_outputs_emulates [of h g _ SourceCoinbaseETX etxHash toBytes] emulates_skip [of h]
  by (auto simp: derived_events_Nil split: option.splits list.splits cong: if_cong)

lemma apply_etx_emulates: "emulates h (apply_etx g h raw) (etx_events g h raw)"
proof -
  let ?body = "\<lambda>etxType toBytes etxHash t.
    if etxType = CoinbaseType g then insertCoinbaseETXOutputs g etxHash toBytes raw h t
    else if etxType = ConversionType g
    then (case conversion_value raw of None \<Rightarrow> Inr t
          | Some v \<Rightarrow> insertConversionETXOutputs g etxHash toBytes v (gas_limit raw) h t)
    else Inr t"
  have body: "emulates h (?body etxType toBytes etxHash) (
      if etxType = CoinbaseType g
      then derived_events g SourceCoinbaseETX h etxHash toBytes (coinbase_outputs g h raw)
      else if etxType = ConversionType g
      then (case conversion_value raw of None \<Rightarrow> Inr []
            | Some v \<Rightarrow> derived_events g SourceConversionETX h etxHash toBytes
                         (ConversionETXOutputs g v h (gas_limit raw)))
      else Inr [])" for etxType toBytes etxHash
    using coinbase_emulates [of h g etxHash toBytes raw] emulates_skip [of h]
      insert_outputs_emulates [of h g _ SourceConversionETX etxHash toBytes]
    by (auto simp: insertConversionETXOutputs_def [abs_def] split: option.splits)
  show ?thesis
    unfolding apply_etx_def [abs_def] etx_events_def
    using emulates_skip [of h]
    by (auto split: option.splits intro!: emulates_pure body)
qed

lemma sweep_emulates:
  "emulates h (\<lambda>t. bindE (wrapE m (sweepTrims h t)) (\<lambda>r. Inr (snd r))) (event_of h Sweep)"
  using emulates_exec [of "stmt_sweep h" h Sweep "[h]" m]
  by (simp add: exec_tx_def [abs_def] sweepTrims_def [abs_def])

lemma applyBlock_emulates: "emulates (Height b) (applyBlock g b) (block_events g b)"
  unfolding applyBlock_def [abs_def] block_events_def
  by (intro emulates_pure emulates_seq emulates_foldE apply_qi_tx_emulates apply_etx_emulates
      sweep_emulates)

end
