(* ===== verification/Fixtures.thy ===== *)
theory Fixtures
  imports Decoder
begin

text \<open>
  Concrete inputs for the witnesses of the properties: a small instance of the protocol's
  parameters, two blocks of a chain with a competing third one, and their JSON bodies. Nothing
  here models code.
\<close>

text \<open>Three denominations (1, 10, 100); the lowest one trims after five blocks.\<close>

definition ex_goquai :: goquai where
  "ex_goquai =
     \<lparr>Denominations = (\<lambda>d. if d \<le> 2 then Some (10 ^ unat d) else None),
      TrimDepths = (\<lambda>d. if d = 0 then Some 5 else None),
      FindMinDenominations = (\<lambda>v d.
        if d = 2 then Some (word_of_int (v div 100))
        else if d = 1 then Some (word_of_int (v mod 100 div 10))
        else if d = 0 then Some (word_of_int (v mod 10)) else None),
      CalculateCoinbaseValueWithLockup = (\<lambda>v b h. v + int (unat b)),
      LockupByteToBlockDepth = (\<lambda>b. if b = 0 then 0 else 100),
      ConversionLockPeriod_c = 50, TxGas = 21000, CallValueTransferGas = 9000,
      MaxOutputIndex = 65535, MaxDenomination = 2,
      CoinbaseType = 1, ConversionType = 2, ExternalTxType = 1, QiTxType = 2\<rparr>"

definition ex_hash :: "u8 \<Rightarrow> string" where
  "ex_hash n = ''0x'' @ hex_EncodeToString (replicate 32 n)"

definition ex_qi_addr :: string where
  "ex_qi_addr = ''0x'' @ hex_EncodeToString (replicate 20 0x80)"

definition ex_quai_addr :: string where
  "ex_quai_addr = ''0x'' @ hex_EncodeToString (replicate 20 0x01)"

text \<open>A coinbase ETX of value 12: one output of 10 and two of 1.\<close>

definition ex_coinbase :: json where
  "ex_coinbase = JObj
     [(''hash'', JStr (ex_hash 0xA1)), (''type'', JStr ''0x1''), (''etxType'', JStr ''0x1''),
      (''to'', JStr ex_qi_addr), (''value'', JStr ''0xc''), (''input'', JStr ''0x00'')]"

text \<open>A Qi transaction that spends the first of them into a Qi output and a conversion.\<close>

definition ex_qi_tx :: json where
  "ex_qi_tx = JObj
     [(''hash'', JStr (ex_hash 0xB2)), (''type'', JStr ''0x2''),
      (''inputs'', JArr [JObj
         [(''previousOutPoint'', JObj [(''txHash'', JStr (ex_hash 0xA1)), (''index'', JStr ''0x0'')]),
          (''pubkey'', JStr ''0x02ff'')]]),
      (''outputs'', JArr
         [JObj [(''address'', JStr ex_qi_addr), (''denomination'', JStr ''0x0'')],
          JObj [(''address'', JStr ex_quai_addr), (''denomination'', JStr ''0x0'')]])]"

definition ex_body :: "json list \<Rightarrow> json option" where
  "ex_body txs = Some (JObj [(''transactions'', JArr txs)])"

definition ex_block :: "u64 \<Rightarrow> string \<Rightarrow> string \<Rightarrow> json list \<Rightarrow> block" where
  "ex_block h hash parent txs =
     \<lparr>Height = h, Hash = hash, ParentHash = parent, Timestamp = 7, ExchangeRate = Some 255,
      Raw = ex_body txs\<rparr>"

definition ex_block1 :: block where "ex_block1 = ex_block 1 ''a1'' ''a0'' [ex_coinbase]"
definition ex_block2 :: block where "ex_block2 = ex_block 2 ''a2'' ''a1'' [ex_qi_tx]"
definition ex_fork2 :: block where "ex_fork2 = ex_block 2 ''b2'' ''a1'' []"

section \<open>Their values\<close>

lemma ex_qi_addr_scope [simp]:
  "decodeAddr ex_qi_addr = Inr (replicate 20 0x80)" "isQiScopeBytes (replicate 20 0x80)"
  by (simp_all add: decodeAddr_def ex_qi_addr_def isQiScopeBytes_def)

lemma ex_quai_addr_scope [simp]:
  "decodeAddr ex_quai_addr = Inr (replicate 20 0x01)" "\<not> isQiScopeBytes (replicate 20 0x01)"
  by (simp_all add: decodeAddr_def ex_quai_addr_def isQiScopeBytes_def word_le_nat_alt)

lemma ex_hash_decode [simp]: "decodeHash (ex_hash n) = Inr (replicate 32 n)"
  by (simp add: decodeHash_def ex_hash_def)

lemma ex_pubkey [simp]: "decodeHex ''0x02ff'' = Inr (Some [0x02, 0xff])"
  by (simp add: decodeHex_def TrimPrefix_def hex_val_def digit_val_def)

lemma ex_quantities [simp]:
  "HexU64_UnmarshalJSON (JStr ''0x0'') = Inr 0" "HexU64_UnmarshalJSON (JStr ''0x1'') = Inr 1"
  "HexU64_UnmarshalJSON (JStr ''0x2'') = Inr 2"
  "hexBigInt_UnmarshalJSON (JStr ''0xc'') = Inr (HexBigInt (Some 12))"
  "hexBytes_UnmarshalJSON (JStr ''0x00'') = Inr [0]"
  by (simp_all add: HexU64_UnmarshalJSON_def hexBigInt_UnmarshalJSON_def hexBytes_UnmarshalJSON_def
      trim_quotes_def TrimPrefix_def res_of_def ParseUint_def digit_val_def int_SetString_def)

definition ex_raw_coinbase :: raw_tx where
  "ex_raw_coinbase = zero_tx\<lparr>tx_Hash := ex_hash 0xA1, tx_Type := 1, tx_EtxType := Some 1,
     tx_To := Some ex_qi_addr, tx_Value := Some (HexBigInt (Some 12)), tx_Input := Some [0]\<rparr>"

definition ex_raw_qi :: raw_tx where
  "ex_raw_qi = zero_tx\<lparr>tx_Hash := ex_hash 0xB2, tx_Type := 2,
     tx_Inputs := [\<lparr>in_PreviousOutPoint = \<lparr>op_TxHash = ex_hash 0xA1, op_Index = 0\<rparr>,
                    in_PubKey = ''0x02ff''\<rparr>],
     tx_Outputs := [\<lparr>out_Address = ex_qi_addr, out_Denomination = 0, out_Lock = None\<rparr>,
                    \<lparr>out_Address = ex_quai_addr, out_Denomination = 0, out_Lock = None\<rparr>]\<rparr>"

lemma ex_coinbase_raw [simp]: "un_struct tx_member ex_coinbase zero_tx = Inr ex_raw_coinbase"
  by (simp add: ex_coinbase_def ex_raw_coinbase_def tx_member_def key_is_def lower_ascii_def)

lemma ex_qi_tx_raw [simp]: "un_struct tx_member ex_qi_tx zero_tx = Inr ex_raw_qi"
  by (simp add: ex_qi_tx_def ex_raw_qi_def tx_member_def txin_member_def txout_member_def
      outpoint_member_def key_is_def lower_ascii_def zero_txin_def zero_txout_def zero_outpoint_def
      zero_tx_def slice_list_def)

lemma ex_body_txs:
  "mapE (\<lambda>j. un_struct tx_member j zero_tx) js = Inr txs \<Longrightarrow>
   ParseBody (ex_body js) = Inr \<lparr>Transactions = txs, OutboundETXs = []\<rparr>"
  by (simp add: ParseBody_def ex_body_def lists_member_def body_of_def slice_list_def)

text \<open>Three creations by the coinbase; one spend, one creation, one conversion by the transaction.\<close>

definition ex_row :: "u8 \<Rightarrow> i32 \<Rightarrow> u8 \<Rightarrow> u64 \<Rightarrow> nat \<Rightarrow> u64 \<Rightarrow> utxo" where
  "ex_row txh idx dn lk src h =
     new_utxo ex_goquai (replicate 32 txh) idx (replicate 20 0x80) dn lk src h"

definition ex_events1 :: "event list" where
  "ex_events1 =
     [Create (ex_row 0xA1 0 1 1 SourceCoinbaseETX 1), Create (ex_row 0xA1 1 0 1 SourceCoinbaseETX 1),
      Create (ex_row 0xA1 2 0 1 SourceCoinbaseETX 1), Sweep]"

definition ex_events2 :: "event list" where
  "ex_events2 =
     [Spend (replicate 32 0xB2) (Some [0x02, 0xff]) (replicate 32 0xA1) 0,
      Create (ex_row 0xB2 0 0 0 SourceQiTx 2),
      Convert \<lparr>cv_tx_hash = replicate 32 0xB2, cv_output_index = 1, cv_to_address = replicate 20 0x01,
        cv_denomination = 0, cv_block_height = 2\<rparr>,
      Sweep]"

lemma ex_coinbase_outputs:
  "coinbase_outputs ex_goquai 1 ex_raw_coinbase =
   [\<lparr>Denomination = 1, Count = 1, LockHeight = 1\<rparr>, \<lparr>Denomination = 0, Count = 2, LockHeight = 1\<rparr>]"
proof -
  have "rev [0..<Suc 2] = [2, 1, 0::nat]" by (simp add: upt_rec)
  then show ?thesis
    by (simp add: coinbase_outputs_def ex_raw_coinbase_def conversion_value_def CoinbaseETXOutputs_def
        derivedOutputs_def derivedOutputsCapped_def ex_goquai_def zero_tx_def Let_def word_le_nat_alt
        word_less_nat_alt)
qed

lemma ex_events_fit [simp]:
  "h \<in> {1, 2} \<Longrightarrow> lk \<in> {0, 1} \<Longrightarrow> dn \<in> {0, 1} \<Longrightarrow>
   event_of h (Create (new_utxo ex_goquai a i ad dn lk src h)) =
   Inr [Create (new_utxo ex_goquai a i ad dn lk src h)]"
  "h \<in> {1, 2} \<Longrightarrow> event_of h Sweep = Inr [Sweep]"
  "h \<in> {1, 2} \<Longrightarrow> event_of h (Spend a p q i) = Inr [Spend a p q i]"
  "h \<in> {1, 2} \<Longrightarrow> cv_block_height r = h \<Longrightarrow> event_of h (Convert r) = Inr [Convert r]"
  by (rule event_of_fits; auto simp: bigint_fits_def utxo_args_def new_utxo_def nullIfZero_def
      TrimDeadline_def ex_goquai_def split: option.splits)+

lemma ex_tx_types [simp]: "QiTxType ex_goquai = 2" "ExternalTxType ex_goquai = 1"
  by (simp_all add: ex_goquai_def)

lemma ex_block1_events: "block_events ex_goquai ex_block1 = Inr ex_events1"
proof -
  have "ParseBody (Raw ex_block1) = Inr \<lparr>Transactions = [ex_raw_coinbase], OutboundETXs = []\<rparr>"
    by (simp add: ex_block1_def ex_block_def ex_body_txs)
  moreover have "qi_tx_events ex_goquai 1 ex_raw_coinbase = Inr []"
    by (simp add: qi_tx_events_def ex_raw_coinbase_def ex_goquai_def)
  moreover have "etx_events ex_goquai 1 ex_raw_coinbase =
      derived_events ex_goquai SourceCoinbaseETX 1 (replicate 32 0xA1) (replicate 20 0x80)
        (coinbase_outputs ex_goquai 1 ex_raw_coinbase)"
    by (simp add: etx_events_def ex_raw_coinbase_def ex_goquai_def)
  moreover have "replicate 2 x = [x, x]" for x :: derived_output by (simp add: numeral_2_eq_2)
  ultimately show ?thesis
    by (simp add: block_events_def ex_block1_def ex_block_def seqE_def ex_coinbase_outputs
        derived_events_def flat_outputs_def ex_events1_def ex_row_def)
qed

lemma ex_block2_events: "block_events ex_goquai ex_block2 = Inr ex_events2"
proof -
  have "ParseBody (Raw ex_block2) = Inr \<lparr>Transactions = [ex_raw_qi], OutboundETXs = []\<rparr>"
    by (simp add: ex_block2_def ex_block_def ex_body_txs)
  moreover have "qi_tx_events ex_goquai 2 ex_raw_qi = Inr (butlast ex_events2)"
    by (simp add: qi_tx_events_def ex_raw_qi_def input_event_def output_event_def seqE_def
        ex_events2_def ex_row_def out_lock_def)
  moreover have "etx_events ex_goquai 2 ex_raw_qi = Inr []"
    by (simp add: etx_events_def ex_raw_qi_def ex_goquai_def)
  ultimately show ?thesis
    by (simp add: block_events_def ex_block2_def ex_block_def seqE_def ex_events2_def)
qed

lemma ex_fork2_events: "block_events ex_goquai ex_fork2 = Inr [Sweep]"
proof -
  have "ParseBody (Raw ex_fork2) = Inr \<lparr>Transactions = [], OutboundETXs = []\<rparr>"
    by (simp add: ex_fork2_def ex_block_def ex_body_txs)
  then show ?thesis by (simp add: block_events_def seqE_def ex_fork2_def ex_block_def)
qed

end
