(* ===== verification/Ledger.thy ===== *)
theory Ledger
  imports Fixtures
begin

text \<open>
  What the decoder promises, stated over the database alone.

  \<^item> \<open>replay\<close>: the tables a list of blocks leads to, block after block; \<open>DecodeApply\<close> refines it.
  \<^item> \<open>undo\<close>: what \<open>rollbackBlock\<close> does to the tables; it is the inverse of a block on every
    database that holds no mark of the block's height (\<open>fresh_at\<close>).
  \<^item> \<open>live\<close>: the unspent, untrimmed rows, the indexer's UTXO set, and \<open>ledger_event\<close>: the textbook
    semantics of the events on that set.
\<close>

section \<open>Events belong to their block\<close>

definition event_at :: "u64 \<Rightarrow> event \<Rightarrow> bool" where
  "event_at h ev =
     (case ev of
        Create r \<Rightarrow> created_block r = h \<and> spent_block r = None \<and> spent_tx r = None \<and>
                    spender_pubkey r = None \<and> trimmed_block r = None \<and> list_all bigint_fits (utxo_args r)
      | Convert r \<Rightarrow> cv_block_height r = h
      | _ \<Rightarrow> True)"

lemma event_at_simps [simp]:
  "event_at h (Spend a p q i)" "event_at h Sweep"
  "event_at h (Create (new_utxo g a i ad dn lk src h)) \<longleftrightarrow>
   list_all bigint_fits (utxo_args (new_utxo g a i ad dn lk src h))"
  by (simp_all add: event_at_def new_utxo_def)

lemma seqE_Inr: "seqE a b = Inr evs \<longleftrightarrow> (\<exists>xs ys. a = Inr xs \<and> b = Inr ys \<and> evs = xs @ ys)"
  by (auto simp: seqE_def bindE_eq_Inr)

lemma concat_mapE_in:
  "concat_mapE f xs = Inr ys \<Longrightarrow> y \<in> set ys \<Longrightarrow> \<exists>x \<in> set xs. \<exists>zs. f x = Inr zs \<and> y \<in> set zs"
  by (induction xs arbitrary: ys) (auto simp: seqE_Inr)

lemma qi_tx_events_at: "qi_tx_events g h raw = Inr evs \<Longrightarrow> ev \<in> set evs \<Longrightarrow> event_at h ev"
  by (auto simp: qi_tx_events_def bindE_eq_Inr seqE_Inr input_event_def output_event_def event_at_def
      event_of_Inr new_utxo_def split: if_splits prod.splits dest!: concat_mapE_in)

lemma derived_events_at:
  "derived_events g src h etxHash toBytes os = Inr evs \<Longrightarrow> ev \<in> set evs \<Longrightarrow> event_at h ev"
  by (auto simp: derived_events_def event_of_Inr dest!: concat_mapE_in)

lemma etx_events_at: "etx_events g h raw = Inr evs \<Longrightarrow> ev \<in> set evs \<Longrightarrow> event_at h ev"
  by (auto simp: etx_events_def bindE_eq_Inr dest: derived_events_at split: if_splits option.splits)

lemma block_events_at: "block_events g b = Inr evs \<Longrightarrow> ev \<in> set evs \<Longrightarrow> event_at (Height b) ev"
  by (auto simp: block_events_def bindE_eq_Inr seqE_Inr event_of_Inr dest: qi_tx_events_at etx_events_at
      dest!: concat_mapE_in)

section \<open>Well-formedness is kept\<close>

lemma db_ok_apply_event: "db_ok d \<Longrightarrow> event_at h ev \<Longrightarrow> db_ok (apply_event h' ev d)"
  by (cases ev) (auto intro!: db_ok_stmts simp: event_at_def row_ok_def)

lemma db_ok_run_events: "db_ok d \<Longrightarrow> \<forall>ev \<in> set evs. event_at h ev \<Longrightarrow> db_ok (run_events h' evs d)"
  by (induction evs arbitrary: d) (auto intro: db_ok_apply_event)

lemma other_tables_apply_event [simp]:
  "t_blocks (apply_event h ev d) = t_blocks d" "t_meta_tip (apply_event h ev d) = t_meta_tip d"
  by (cases ev; simp add: stmt_mark_spent_def stmt_insert_utxo_def stmt_insert_conv_def stmt_sweep_def)+

lemma other_tables_run_events [simp]:
  "t_blocks (run_events h evs d) = t_blocks d" "t_meta_tip (run_events h evs d) = t_meta_tip d"
  by (induction evs arbitrary: d) auto

section \<open>Rollback is the inverse\<close>

definition undo :: "u64 \<Rightarrow> db \<Rightarrow> db" where
  "undo h d = fst (stmt_delete_conv h (fst (stmt_delete_created h
                (fst (stmt_unspend h (fst (stmt_untrim h d)))))))"

definition undo_row :: "u64 \<Rightarrow> utxo \<Rightarrow> utxo" where
  "undo_row h r =
     (let r1 = (if trimmed_block r = Some h then r\<lparr>trimmed_block := None\<rparr> else r)
      in if spent_block r1 = Some h
         then r1\<lparr>spent_block := None, spent_tx := None, spender_pubkey := None\<rparr> else r1)"

lemma undo_fields:
  "t_blocks (undo h d) = t_blocks d" "t_meta_tip (undo h d) = t_meta_tip d"
  "t_utxos (undo h d) = filter (\<lambda>r. created_block r \<noteq> h) (map (undo_row h) (t_utxos d))"
  "t_convs (undo h d) = filter (\<lambda>r. cv_block_height r \<noteq> h) (t_convs d)"
  by (simp_all add: undo_def stmt_delete_conv_def stmt_delete_created_def stmt_unspend_def
      stmt_untrim_def del_where_def upd_where_def undo_row_def [abs_def] Let_def comp_def)

lemma created_undo_row [simp]: "created_block (undo_row h r) = created_block r"
  by (simp add: undo_row_def Let_def)

lemma db_ok_undo: "db_ok d \<Longrightarrow> db_ok (undo h d)"
  by (simp add: undo_def db_ok_stmts)

lemma undo_row_spend:
  "row_ok r \<Longrightarrow> row_unspent r \<Longrightarrow>
   undo_row h (r\<lparr>spent_block := Some h, spent_tx := x, spender_pubkey := y\<rparr>) = undo_row h r"
  by (cases r) (simp add: undo_row_def row_ok_def row_unspent_def)

lemma undo_row_trim:
  "row_unspent r \<Longrightarrow> undo_row h (r\<lparr>trimmed_block := Some h\<rparr>) = undo_row h r"
  by (cases r) (simp add: undo_row_def row_unspent_def)

lemma undo_apply_event:
  assumes "db_ok d" "event_at h ev"
  shows "undo h (apply_event h ev d) = undo h d"
proof -
  have ok: "row_ok r" if "r \<in> set (t_utxos d)" for r using assms(1) that by (simp add: db_ok_def)
  have upd: "map (undo_row h) (upd_where p f (t_utxos d)) = map (undo_row h) (t_utxos d)"
    if "\<And>r. r \<in> set (t_utxos d) \<Longrightarrow> p r \<Longrightarrow> undo_row h (f r) = undo_row h r" for p f
    using that by (auto simp: upd_where_def)
  show ?thesis
  proof (cases ev)
    case (Spend a pk q i)
    have "map (undo_row h) (upd_where (spend_hit q i)
        (\<lambda>r. r\<lparr>spent_block := Some h, spent_tx := Some a, spender_pubkey := pk\<rparr>) (t_utxos d)) =
      map (undo_row h) (t_utxos d)"
      by (rule upd) (auto simp: spend_hit_def intro: undo_row_spend ok)
    then show ?thesis
      using Spend by (intro db.equality) (simp_all add: undo_fields stmt_mark_spent_def)
  next
    case Sweep
    have "map (undo_row h) (upd_where (trim_hit h) (\<lambda>r. r\<lparr>trimmed_block := Some h\<rparr>) (t_utxos d)) =
      map (undo_row h) (t_utxos d)"
      by (rule upd) (auto simp: trim_hit_def intro: undo_row_trim)
    then show ?thesis
      using Sweep by (intro db.equality) (simp_all add: undo_fields stmt_sweep_def)
  next
    case (Create r)
    then show ?thesis using assms(2)
      by (intro db.equality) (auto simp: undo_fields stmt_insert_utxo_def ins_nc_def event_at_def)
  next
    case (Convert r)
    then show ?thesis using assms(2)
      by (intro db.equality) (auto simp: undo_fields stmt_insert_conv_def ins_nc_def event_at_def)
  qed
qed

lemma undo_run_events:
  "db_ok d \<Longrightarrow> \<forall>ev \<in> set evs. event_at h ev \<Longrightarrow> undo h (run_events h evs d) = undo h d"
  by (induction evs arbitrary: d) (simp_all add: undo_apply_event db_ok_apply_event [where h = h])

text \<open>No mark of height \<open>h\<close> in the tables.\<close>

definition fresh_at :: "u64 \<Rightarrow> db \<Rightarrow> bool" where
  "fresh_at h d \<longleftrightarrow>
     (\<forall>r \<in> set (t_utxos d). created_block r \<noteq> h \<and> spent_block r \<noteq> Some h \<and> trimmed_block r \<noteq> Some h) \<and>
     (\<forall>c \<in> set (t_convs d). cv_block_height c \<noteq> h)"

lemma fresh_at_empty: "fresh_at h empty_db"
  by (simp add: fresh_at_def empty_db_def)

lemma undo_fresh: "fresh_at h d \<Longrightarrow> undo h d = d"
  by (intro db.equality)
    (auto simp: undo_fields fresh_at_def undo_row_def filter_id_conv intro!: map_idI)

lemma fresh_at_apply_event:
  "fresh_at h d \<Longrightarrow> event_at h' ev \<Longrightarrow> h \<noteq> h' \<Longrightarrow> fresh_at h (apply_event h' ev d)"
  by (cases ev)
    (auto simp: fresh_at_def stmt_mark_spent_def stmt_insert_utxo_def stmt_insert_conv_def stmt_sweep_def
      set_upd_where set_ins_nc event_at_def)

lemma fresh_at_run_events:
  "fresh_at h d \<Longrightarrow> \<forall>ev \<in> set evs. event_at h' ev \<Longrightarrow> h \<noteq> h' \<Longrightarrow> fresh_at h (run_events h' evs d)"
  by (induction evs arbitrary: d) (auto intro: fresh_at_apply_event)

section \<open>Lists of blocks\<close>

definition replay_block :: "goquai \<Rightarrow> block \<Rightarrow> db \<Rightarrow> err + db" where
  "replay_block g b d = bindE (block_events g b) (\<lambda>evs. Inr (run_events (Height b) evs d))"

definition replay :: "goquai \<Rightarrow> block list \<Rightarrow> db \<Rightarrow> err + db" where
  "replay g bs d = foldE (replay_block g) bs d"

definition undo_blocks :: "block list \<Rightarrow> db \<Rightarrow> db" where
  "undo_blocks bs d = fold (\<lambda>b. undo (Height b)) bs d"

lemma replay_block_facts:
  assumes "replay_block g b d = Inr d'" "db_ok d"
  shows "db_ok d'" "undo (Height b) d' = undo (Height b) d"
    "h \<noteq> Height b \<Longrightarrow> fresh_at h d \<Longrightarrow> fresh_at h d'"
    "t_blocks d' = t_blocks d" "t_meta_tip d' = t_meta_tip d"
proof -
  obtain evs where evs: "block_events g b = Inr evs" "d' = run_events (Height b) evs d"
    using assms(1) by (auto simp: replay_block_def bindE_eq_Inr)
  have at: "\<forall>ev \<in> set evs. event_at (Height b) ev" using block_events_at [OF evs(1)] by blast
  show "db_ok d'" "undo (Height b) d' = undo (Height b) d"
    "h \<noteq> Height b \<Longrightarrow> fresh_at h d \<Longrightarrow> fresh_at h d'"
    "t_blocks d' = t_blocks d" "t_meta_tip d' = t_meta_tip d"
    using at assms(2) evs(2)
    by (simp_all add: db_ok_run_events undo_run_events fresh_at_run_events)
qed

lemma replay_simps [simp]:
  "replay g [] d = Inr d"
  "replay g (b # bs) d = bindE (replay_block g b d) (replay g bs)"
  by (simp_all add: replay_def [abs_def])

lemma replay_append: "replay g (bs @ cs) d = bindE (replay g bs d) (replay g cs)"
  by (simp add: replay_def [abs_def] foldE_append)

lemma replay_total:
  assumes "\<And>b. b \<in> set bs \<Longrightarrow> \<exists>evs. block_events g b = Inr evs"
  shows "\<exists>d'. replay g bs d = Inr d'"
proof -
  have "\<exists>d'. foldE (replay_block g) bs d = Inr d' \<and> True"
    using assms by (intro foldE_total) (fastforce simp: replay_block_def)+
  then show ?thesis by (simp add: replay_def)
qed

lemma replay_facts:
  assumes "replay g bs d = Inr d'" "db_ok d"
  shows "db_ok d' \<and> t_blocks d' = t_blocks d \<and> t_meta_tip d' = t_meta_tip d \<and>
    (h \<notin> Height ` set bs \<longrightarrow> fresh_at h d \<longrightarrow> fresh_at h d')"
  using assms
proof (induction bs arbitrary: d)
  case (Cons b bs)
  from Cons.prems obtain d1 where d1: "replay_block g b d = Inr d1" "replay g bs d1 = Inr d'"
    by (auto simp: bindE_eq_Inr)
  from replay_block_facts [OF d1(1) Cons.prems(2)] Cons.IH [OF d1(2)] show ?case by auto
qed simp

lemma undo_blocks_replay:
  assumes "replay g bs d = Inr d'" "db_ok d" "distinct (map Height bs)"
    "\<forall>b \<in> set bs. fresh_at (Height b) d"
  shows "undo_blocks (rev bs) d' = d"
  using assms
proof (induction bs arbitrary: d)
  case (Cons b bs)
  from Cons.prems(1) obtain d1 where d1: "replay_block g b d = Inr d1" "replay g bs d1 = Inr d'"
    by (auto simp: bindE_eq_Inr)
  note f = replay_block_facts [OF d1(1) Cons.prems(2)]
  have "\<forall>b' \<in> set bs. fresh_at (Height b') d1"
    using Cons.prems(3,4) f(3) by (metis (no_types, lifting) distinct.simps(2) image_eqI list.set_intros(2) list.simps(9) list.set_map)
  from Cons.IH [OF d1(2) f(1) _ this] Cons.prems(3) have "undo_blocks (rev bs) d' = d1" by simp
  with f(2) undo_fresh [of "Height b" d] Cons.prems(4) show ?case by (simp add: undo_blocks_def)
qed (simp add: undo_blocks_def)

section \<open>The code refines it\<close>

lemma DecodeApply_replay:
  assumes "DecodeApply g bs t = Inr t'"
  shows "replay g bs (tx_db t) = Inr (tx_db t') \<and> tx_fault t' = tx_fault t"
  using assms
proof (induction bs arbitrary: t)
  case (Cons b bs)
  from Cons.prems obtain t1 where t1: "applyBlock g b t = Inr t1" "DecodeApply g bs t1 = Inr t'"
    by (auto simp: DecodeApply_def bindE_eq_Inr)
  from emulatesD [OF applyBlock_emulates t1(1)] Cons.IH [OF t1(2)]
  show ?case by (auto simp: replay_block_def)
qed (simp add: DecodeApply_def)

lemma DecodeApply_total:
  assumes "replay g bs (tx_db t) = Inr d'" "no_fault t"
  shows "\<exists>t'. DecodeApply g bs t = Inr t'"
  using assms
proof (induction bs arbitrary: t)
  case (Cons b bs)
  from Cons.prems(1) obtain evs where evs: "block_events g b = Inr evs"
    and rest: "replay g bs (run_events (Height b) evs (tx_db t)) = Inr d'"
    by (auto simp: replay_block_def bindE_eq_Inr)
  from emulates_total [OF applyBlock_emulates evs Cons.prems(2)]
  obtain t1 where t1: "applyBlock g b t = Inr t1" by blast
  with emulatesD [OF applyBlock_emulates t1] evs Cons.prems(2)
  have "no_fault t1" "tx_db t1 = run_events (Height b) evs (tx_db t)" by (auto simp: no_fault_def)
  with Cons.IH [of t1] rest t1 show ?case by (auto simp: DecodeApply_def)
qed (simp add: DecodeApply_def)

lemma exec_tx_Inr:
  "exec_tx msg args f t = Inr t' \<Longrightarrow> tx_db t' = fst (f (tx_db t)) \<and> tx_fault t' = tx_fault t"
  by (simp add: exec_tx_Inr_iff)

lemma exec_tx_total:
  "no_fault t \<Longrightarrow> list_all bigint_fits args \<Longrightarrow>
   \<exists>t'. exec_tx msg args f t = Inr t' \<and> no_fault t' \<and> tx_db t' = fst (f (tx_db t))"
  by (simp add: exec_tx_Inr_iff no_fault_def)

lemma rollbackBlock_undo:
  "rollbackBlock b t = Inr t' \<Longrightarrow> tx_db t' = undo (Height b) (tx_db t) \<and> tx_fault t' = tx_fault t"
  by (auto simp: rollbackBlock_def bindE_eq_Inr undo_def dest!: exec_tx_Inr)

lemma rollbackBlock_total:
  assumes "no_fault t" "bigint_fits (Height b)"
  shows "\<exists>t'. rollbackBlock b t = Inr t' \<and> no_fault t'"
proof -
  have args: "list_all bigint_fits [Height b]" using assms(2) by simp
  obtain t1 where t1: "exec_tx ''un-trim'' [Height b] (stmt_untrim (Height b)) t = Inr t1" "no_fault t1"
    using exec_tx_total [OF assms(1) args] by blast
  obtain t2 where t2: "exec_tx ''un-spend'' [Height b] (stmt_unspend (Height b)) t1 = Inr t2" "no_fault t2"
    using exec_tx_total [OF t1(2) args] by blast
  obtain t3 where t3: "exec_tx ''delete created utxos'' [Height b] (stmt_delete_created (Height b)) t2 = Inr t3"
      "no_fault t3"
    using exec_tx_total [OF t2(2) args] by blast
  obtain t4 where t4: "exec_tx ''delete conversion outputs'' [Height b] (stmt_delete_conv (Height b)) t3 = Inr t4"
      "no_fault t4"
    using exec_tx_total [OF t3(2) args] by blast
  show ?thesis using t1 t2 t3 t4 by (simp add: rollbackBlock_def)
qed

lemma DecodeRollback_undo:
  "DecodeRollback bs t = Inr t' \<Longrightarrow>
   tx_db t' = undo_blocks bs (tx_db t) \<and> tx_fault t' = tx_fault t"
  by (induction bs arbitrary: t)
    (auto simp: DecodeRollback_def undo_blocks_def bindE_eq_Inr dest!: rollbackBlock_undo)

lemma DecodeRollback_total:
  "no_fault t \<Longrightarrow> \<forall>b \<in> set bs. bigint_fits (Height b) \<Longrightarrow> \<exists>t'. DecodeRollback bs t = Inr t' \<and> no_fault t'"
proof (induction bs arbitrary: t)
  case (Cons b bs)
  from rollbackBlock_total [OF Cons.prems(1), of b] Cons.prems(2) obtain t1 where "rollbackBlock b t = Inr t1" "no_fault t1"
    by auto
  with Cons.IH [of t1] Cons.prems(2) show ?case by (simp add: DecodeRollback_def)
qed (simp add: DecodeRollback_def)

section \<open>The UTXO set\<close>

definition live :: "db \<Rightarrow> utxo set" where
  "live d = {r \<in> set (t_utxos d). row_unspent r}"

fun ledger_event :: "u64 \<Rightarrow> event \<Rightarrow> utxo set \<Rightarrow> utxo set" where
  "ledger_event h (Spend txHash pubkey prevHash idx) L =
     {r \<in> L. (tx_hash r, tx_index r) \<noteq> (prevHash, idx)}"
| "ledger_event h (Create r) L = insert r L"
| "ledger_event h (Convert r) L = L"
| "ledger_event h Sweep L = {r \<in> L. trim_deadline r = Some h \<longrightarrow> lock_height r \<noteq> 0}"

definition created :: "event list \<Rightarrow> utxo list" where
  "created evs = concat (map (\<lambda>ev. case ev of Create r \<Rightarrow> [r] | _ \<Rightarrow> []) evs)"

lemma created_simps [simp]:
  "created [] = []"
  "created (ev # evs) = (case ev of Create r \<Rightarrow> [r] | _ \<Rightarrow> []) @ created evs"
  by (simp_all add: created_def)

lemma utxo_key_update [simp]:
  "utxo_key (r\<lparr>spent_block := x, spent_tx := y, spender_pubkey := z\<rparr>) = utxo_key r"
  "utxo_key (r\<lparr>trimmed_block := x\<rparr>) = utxo_key r"
  by (simp_all add: utxo_key_def)

lemma keys_upd_where:
  "(\<And>r. utxo_key (f r) = utxo_key r) \<Longrightarrow> utxo_key ` set (upd_where p f rs) = utxo_key ` set rs"
  using map_key_upd_where [of utxo_key f p rs] by (metis list.set_map)

lemma utxo_keys_apply_event:
  "utxo_key ` set (t_utxos (apply_event h ev d)) =
   utxo_key ` set (t_utxos d) \<union> (case ev of Create r \<Rightarrow> {utxo_key r} | _ \<Rightarrow> {})"
proof (cases ev)
  case (Create r)
  then show ?thesis by (auto simp: stmt_insert_utxo_def set_ins_nc)
qed (simp_all add: stmt_mark_spent_def stmt_sweep_def stmt_insert_conv_def keys_upd_where)

lemma live_upd_where:
  assumes "\<And>r. p r \<Longrightarrow> row_unspent r" "\<And>r. p r \<Longrightarrow> \<not> row_unspent (f r)"
  shows "{r \<in> set (upd_where p f rs). row_unspent r} = {r \<in> {r \<in> set rs. row_unspent r}. \<not> p r}"
  using assms unfolding set_upd_where by (auto split: if_splits)

lemma live_apply_event:
  assumes "event_at h ev" "\<And>r. ev = Create r \<Longrightarrow> utxo_key r \<notin> utxo_key ` set (t_utxos d)"
  shows "live (apply_event h ev d) = ledger_event h ev (live d)"
proof (cases ev)
  case (Spend a pk q i)
  have "live (apply_event h ev d) = {r \<in> set (upd_where (spend_hit q i)
      (\<lambda>r. r\<lparr>spent_block := Some h, spent_tx := Some a, spender_pubkey := pk\<rparr>) (t_utxos d)). row_unspent r}"
    by (simp add: Spend live_def stmt_mark_spent_def)
  also have "\<dots> = {r \<in> live d. \<not> spend_hit q i r}"
    unfolding live_def by (rule live_upd_where) (simp_all add: spend_hit_def row_unspent_def)
  finally show ?thesis using Spend by (auto simp: live_def spend_hit_def)
next
  case Sweep
  have "live (apply_event h ev d) =
      {r \<in> set (upd_where (trim_hit h) (\<lambda>r. r\<lparr>trimmed_block := Some h\<rparr>) (t_utxos d)). row_unspent r}"
    by (simp add: Sweep live_def stmt_sweep_def)
  also have "\<dots> = {r \<in> live d. \<not> trim_hit h r}"
    unfolding live_def by (rule live_upd_where) (simp_all add: trim_hit_def row_unspent_def)
  finally show ?thesis using Sweep by (auto simp: live_def trim_hit_def)
next
  case (Create r)
  then show ?thesis
    using assms by (auto simp: live_def stmt_insert_utxo_def set_ins_nc row_unspent_def event_at_def)
next
  case (Convert r)
  then show ?thesis by (simp add: live_def stmt_insert_conv_def)
qed

lemma live_run_events:
  assumes "\<forall>ev \<in> set evs. event_at h ev" "distinct (map utxo_key (created evs))"
    "utxo_key ` set (created evs) \<inter> utxo_key ` set (t_utxos d) = {}"
  shows "live (run_events h evs d) = fold (ledger_event h) evs (live d)"
  using assms
proof (induction evs arbitrary: d)
  case (Cons ev evs)
  have "live (apply_event h ev d) = ledger_event h ev (live d)"
    using Cons.prems by (intro live_apply_event) auto
  moreover have "live (run_events h evs (apply_event h ev d)) =
      fold (ledger_event h) evs (live (apply_event h ev d))"
    using Cons.prems
    by (intro Cons.IH) (auto simp: utxo_keys_apply_event split: event.splits)
  ultimately show ?case by simp
qed simp

lemma fresh_at_keys:
  "fresh_at h d \<Longrightarrow> \<forall>r \<in> set rs. created_block r = h \<Longrightarrow> utxo_key ` set rs \<inter> utxo_key ` set (t_utxos d) = {}"
  by (auto simp: fresh_at_def utxo_key_def)

lemma created_at: "\<forall>ev \<in> set evs. event_at h ev \<Longrightarrow> r \<in> set (created evs) \<Longrightarrow> created_block r = h"
  by (induction evs) (auto simp: event_at_def split: event.splits)

section \<open>Rows that are spent or trimmed\<close>

lemma finished_rows_stay:
  "r \<in> set (t_utxos d) \<Longrightarrow> \<not> row_unspent r \<Longrightarrow> r \<in> set (t_utxos (apply_event h ev d))"
  by (cases ev)
    (auto simp: stmt_mark_spent_def stmt_sweep_def stmt_insert_utxo_def stmt_insert_conv_def
      set_upd_where set_ins_nc spend_hit_def trim_hit_def image_iff intro!: bexI [of _ r])

lemma finished_rows_run:
  "r \<in> set (t_utxos d) \<Longrightarrow> \<not> row_unspent r \<Longrightarrow> r \<in> set (t_utxos (run_events h evs d))"
  by (induction evs arbitrary: d) (auto intro: finished_rows_stay)

lemma block_events_sweep:
  "block_events g b = Inr evs \<Longrightarrow> bigint_fits (Height b) \<and> (\<exists>es. evs = es @ [Sweep])"
  by (auto simp: block_events_def bindE_eq_Inr seqE_Inr event_of_Inr)

lemma sweep_complete:
  "r \<in> live (fst (stmt_sweep h d)) \<Longrightarrow> trim_deadline r = Some h \<Longrightarrow> lock_height r \<noteq> 0"
  by (auto simp: live_def stmt_sweep_def set_upd_where trim_hit_def row_unspent_def split: if_splits)

section \<open>What has no events\<close>

lemma concat_mapE_all: "concat_mapE f xs = Inr ys \<Longrightarrow> x \<in> set xs \<Longrightarrow> \<exists>zs. f x = Inr zs"
  by (induction xs arbitrary: ys) (auto simp: seqE_Inr)

lemma oversized_lock_no_events:
  assumes "ParseBody (Raw b) = Inr body" "raw \<in> set (Transactions body)" "tx_Type raw = QiTxType g"
    and "out \<in> set (tx_Outputs raw)" "decodeAddr (out_Address out) = Inr a" "isQiScopeBytes a"
    and "\<not> bigint_fits (out_lock out)"
  shows "block_events g b \<noteq> Inr evs"
proof
  assume "block_events g b = Inr evs"
  with assms(1) obtain xs where "concat_mapE (qi_tx_events g (Height b)) (Transactions body) = Inr xs"
    by (auto simp: block_events_def seqE_Inr)
  from concat_mapE_all [OF this assms(2)] assms(3) obtain txh ys where
    ys: "concat_mapE (output_event g (Height b) txh) (List.enumerate 0 (tx_Outputs raw)) = Inr ys"
    by (auto simp: qi_tx_events_def bindE_eq_Inr seqE_Inr)
  have "out \<in> snd ` set (List.enumerate 0 (tx_Outputs raw))"
    using assms(4) by (metis list.set_map map_snd_enumerate)
  then obtain i where "(i, out) \<in> set (List.enumerate 0 (tx_Outputs raw))" by auto
  from concat_mapE_all [OF ys this] obtain zs where "output_event g (Height b) txh (i, out) = Inr zs"
    by blast
  then have "bigint_fits (out_lock out)"
    using assms(5,6) by (simp add: output_event_def event_of_Inr utxo_args_def new_utxo_def)
  with assms(7) show False by simp
qed

section \<open>The concrete blocks\<close>

lemma ex_fresh_keys: "distinct (map utxo_key (created ex_events1))" "distinct (map utxo_key (created ex_events2))"
  by (simp_all add: ex_events1_def ex_events2_def ex_row_def new_utxo_def utxo_key_def)

definition ex_tx :: "db \<Rightarrow> tx" where
  "ex_tx d = \<lparr>tx_db = d, tx_stmt = 0, tx_fault = (\<lambda>_. None)\<rparr>"

definition ex_db1 :: db where "ex_db1 = run_events 1 ex_events1 empty_db"
definition ex_db2 :: db where "ex_db2 = run_events 2 ex_events2 ex_db1"

lemma ex_tx_sel [simp]: "tx_db (ex_tx d) = d" "no_fault (ex_tx d)"
  by (simp_all add: ex_tx_def no_fault_def)

lemma ex_heights [simp]:
  "Height ex_block1 = 1" "Height ex_block2 = 2" "Height ex_fork2 = 2"
  by (simp_all add: ex_block1_def ex_block2_def ex_fork2_def ex_block_def)

lemma ex_replay: "replay ex_goquai [ex_block1] empty_db = Inr ex_db1"
  "replay ex_goquai [ex_block2] ex_db1 = Inr ex_db2"
  "replay ex_goquai [ex_block1, ex_block2] empty_db = Inr ex_db2"
  by (simp_all add: replay_block_def ex_block1_events ex_block2_events ex_db1_def ex_db2_def)

lemma ex_db1_ok: "db_ok ex_db1" "fresh_at 2 ex_db1"
  using replay_facts [OF ex_replay(1) db_ok_empty, of 2] by (simp_all add: fresh_at_empty)

lemma ex_decoded: "\<exists>t. DecodeApply ex_goquai [ex_block1, ex_block2] (ex_tx empty_db) = Inr t \<and> no_fault t \<and> tx_db t = ex_db2"
  using DecodeApply_total [of ex_goquai "[ex_block1, ex_block2]" "ex_tx empty_db"] ex_replay(3)
    DecodeApply_replay [of ex_goquai "[ex_block1, ex_block2]" "ex_tx empty_db"]
  by (fastforce simp: no_fault_def ex_tx_def)

lemma ex_applied: "\<exists>t. applyBlock ex_goquai ex_block2 (ex_tx ex_db1) = Inr t \<and> tx_db t = ex_db2"
  using emulates_total [OF applyBlock_emulates ex_block2_events, of "ex_tx ex_db1"]
    emulatesD [OF applyBlock_emulates, of ex_goquai ex_block2 "ex_tx ex_db1"] ex_block2_events
  by (auto simp: ex_db2_def)

section \<open>Properties\<close>

text \<open>
  C4: A block is decoded as specified. \<open>applyBlock\<close> returns only if the block's events exist, and
  then the UTXO tables are exactly the replay of these events on the tables before; when the events
  exist and no statement fails, it does return.
\<close>

theorem applyBlock_refines_events:
  "(\<forall>t'. applyBlock g b t = Inr t' \<longrightarrow>
      (\<exists>evs. block_events g b = Inr evs \<and> tx_db t' = run_events (Height b) evs (tx_db t))) \<and>
   (no_fault t \<longrightarrow> (\<forall>evs. block_events g b = Inr evs \<longrightarrow> (\<exists>t'. applyBlock g b t = Inr t')))"
  using emulatesD [OF applyBlock_emulates] emulates_total [OF applyBlock_emulates] by blast

theorem applyBlock_refines_events_witness:
  "\<exists>t'. applyBlock ex_goquai ex_block2 (ex_tx ex_db1) = Inr t' \<and> tx_db t' = run_events 2 ex_events2 ex_db1"
  using applyBlock_refines_events [of ex_goquai ex_block2 "ex_tx ex_db1"] ex_block2_events by fastforce

text \<open>
  C5: The UTXO set follows the textbook semantics. If no row carries the block's height yet and the
  block creates no outpoint twice, the unspent rows after the block are the unspent rows before it
  minus the spent outpoints, plus the created outputs, minus the unlocked rows whose trim deadline
  is the block.
\<close>

theorem applyBlock_utxo_set:
  assumes "applyBlock g b t = Inr t'" "block_events g b = Inr evs" "fresh_at (Height b) (tx_db t)"
    and "distinct (map utxo_key (created evs))"
  shows "live (tx_db t') = fold (ledger_event (Height b)) evs (live (tx_db t))"
proof -
  have at: "\<forall>ev \<in> set evs. event_at (Height b) ev" using block_events_at [OF assms(2)] by blast
  then have "utxo_key ` set (created evs) \<inter> utxo_key ` set (t_utxos (tx_db t)) = {}"
    using fresh_at_keys [OF assms(3)] created_at by blast
  with live_run_events [OF at assms(4)] emulatesD [OF applyBlock_emulates assms(1)] assms(2)
  show ?thesis by auto
qed

theorem applyBlock_utxo_set_witness:
  "live ex_db2 = fold (ledger_event 2) ex_events2 (live ex_db1)"
  using ex_applied applyBlock_utxo_set [of ex_goquai ex_block2 "ex_tx ex_db1" _ ex_events2]
    ex_block2_events ex_db1_ok(2) ex_fresh_keys(2)
  by auto

text \<open>
  C2: Rollback is exact. If the decoder applies a list of blocks of distinct heights, none of which
  the tables mention, to well-formed tables, and then rolls the same blocks back from the tip down,
  the database is the one it started from: same rows, same columns, same order.
\<close>

theorem rollback_inverts_apply:
  assumes "db_ok (tx_db t)" "distinct (map Height bs)" "\<forall>b \<in> set bs. fresh_at (Height b) (tx_db t)"
    and "DecodeApply g bs t = Inr t1" "DecodeRollback (rev bs) t1 = Inr t2"
  shows "tx_db t2 = tx_db t"
  using DecodeApply_replay [OF assms(4)] DecodeRollback_undo [OF assms(5)] assms(1-3)
    undo_blocks_replay [of g bs "tx_db t" "tx_db t1"]
  by simp

theorem rollback_inverts_apply_witness:
  "\<exists>t1 t2. DecodeApply ex_goquai [ex_block1, ex_block2] (ex_tx empty_db) = Inr t1 \<and>
     DecodeRollback [ex_block2, ex_block1] t1 = Inr t2 \<and> tx_db t2 = empty_db"
proof -
  obtain t1 where t1: "DecodeApply ex_goquai [ex_block1, ex_block2] (ex_tx empty_db) = Inr t1" "no_fault t1"
    using ex_decoded by blast
  obtain t2 where t2: "DecodeRollback [ex_block2, ex_block1] t1 = Inr t2"
    using DecodeRollback_total [OF t1(2), of "[ex_block2, ex_block1]"] by (auto simp: bigint_fits_def)
  with t1 rollback_inverts_apply [of "ex_tx empty_db" "[ex_block1, ex_block2]" ex_goquai t1 t2]
  show ?thesis by (simp add: db_ok_empty fresh_at_empty)
qed

text \<open>
  C27: Well-formedness is kept by both directions. No two rows have the same transaction hash, index
  and block of creation (two rows may still share an outpoint, when their blocks differ), no two
  conversion outputs the same outpoint, a row's spending columns are filled together, no row is both
  spent and trimmed, a trimmed row was trimmed at its deadline and is not locked, and every height,
  lock and deadline fits into its column.
\<close>

theorem decoder_keeps_db_ok:
  assumes "db_ok (tx_db t)"
  shows "(DecodeApply g bs t = Inr t' \<longrightarrow> db_ok (tx_db t')) \<and>
    (DecodeRollback rs t = Inr t'' \<longrightarrow> db_ok (tx_db t''))"
proof -
  have "db_ok (undo_blocks rs d)" if "db_ok d" for d
    using that by (induction rs arbitrary: d) (simp_all add: undo_blocks_def db_ok_undo)
  with assms replay_facts [of g bs "tx_db t" "tx_db t'"] show ?thesis
    by (auto dest!: DecodeApply_replay DecodeRollback_undo)
qed

theorem decoder_keeps_db_ok_witness:
  "\<exists>t'. DecodeApply ex_goquai [ex_block1, ex_block2] (ex_tx empty_db) = Inr t' \<and> db_ok (tx_db t')"
  using ex_decoded decoder_keeps_db_ok [of "ex_tx empty_db" ex_goquai "[ex_block1, ex_block2]"]
  by (auto simp: db_ok_empty)

text \<open>
  C28: What is spent or trimmed is final. Applying a block never changes a row that was spent or
  trimmed before: a second spend of the same outpoint does not overwrite the first spender.
\<close>

theorem spent_rows_are_final:
  assumes "applyBlock g b t = Inr t'" "r \<in> set (t_utxos (tx_db t))" "\<not> row_unspent r"
  shows "r \<in> set (t_utxos (tx_db t'))"
  using emulatesD [OF applyBlock_emulates assms(1)] finished_rows_run [OF assms(2,3)] by auto

definition ex_spent :: utxo where
  "ex_spent = (ex_row 0xA1 0 1 1 SourceCoinbaseETX 1)
     \<lparr>spent_block := Some 1, spent_tx := Some [1], spender_pubkey := Some [2]\<rparr>"

theorem spent_rows_are_final_witness:
  "\<exists>t'. applyBlock ex_goquai ex_block2 (ex_tx (empty_db\<lparr>t_utxos := [ex_spent]\<rparr>)) = Inr t' \<and>
     ex_spent \<in> set (t_utxos (tx_db t'))"
proof -
  obtain t' where t': "applyBlock ex_goquai ex_block2 (ex_tx (empty_db\<lparr>t_utxos := [ex_spent]\<rparr>)) = Inr t'"
    using emulates_total [OF applyBlock_emulates ex_block2_events, of "ex_tx (empty_db\<lparr>t_utxos := [ex_spent]\<rparr>)"]
    by auto
  with spent_rows_are_final [OF t', of ex_spent] show ?thesis by (simp add: ex_spent_def row_unspent_def)
qed

text \<open>
  The trim sweep is complete. After a block is applied, no unspent row whose trim deadline is
  the block's height is left, except the locked ones.
\<close>

theorem sweep_leaves_only_locked:
  assumes "applyBlock g b t = Inr t'" "r \<in> live (tx_db t')" "trim_deadline r = Some (Height b)"
  shows "lock_height r \<noteq> 0"
proof -
  obtain evs where evs: "block_events g b = Inr evs" "tx_db t' = run_events (Height b) evs (tx_db t)"
    using emulatesD [OF applyBlock_emulates assms(1)] by auto
  with block_events_sweep [OF evs(1)] obtain d where "tx_db t' = fst (stmt_sweep (Height b) d)" by auto
  with sweep_complete [of r "Height b" d] assms(2,3) show ?thesis by simp
qed

definition ex_locked :: utxo where
  "ex_locked = (ex_row 0xC3 0 0 9 SourceQiTx 1)\<lparr>trim_deadline := Some 2\<rparr>"

theorem sweep_leaves_only_locked_witness:
  "\<exists>t'. applyBlock ex_goquai ex_fork2 (ex_tx (empty_db\<lparr>t_utxos := [ex_locked]\<rparr>)) = Inr t' \<and>
     ex_locked \<in> live (tx_db t') \<and> lock_height ex_locked \<noteq> 0"
proof -
  let ?t = "ex_tx (empty_db\<lparr>t_utxos := [ex_locked]\<rparr>)"
  obtain t' where t': "applyBlock ex_goquai ex_fork2 ?t = Inr t'"
    using emulates_total [OF applyBlock_emulates ex_fork2_events, of ?t] by auto
  have "ex_locked \<in> live (tx_db t')"
    using emulatesD [OF applyBlock_emulates t'] ex_fork2_events
    by (simp add: live_def stmt_sweep_def trim_hit_def upd_where_def ex_locked_def ex_row_def new_utxo_def
        row_unspent_def)
  moreover from this have "lock_height ex_locked \<noteq> 0"
    by (rule sweep_leaves_only_locked [OF t']) (simp add: ex_locked_def)
  ultimately show ?thesis using t' by blast
qed

end
