(* ===== verification/PostgresStore.thy ===== *)
theory PostgresStore
  imports Indexer Ledger
begin

text \<open>
  \<open>internal/store/postgres.go\<close> and \<open>internal/store/decoder.go\<close>: the database store. Its state is
  the record \<open>pool\<close>: the database, the optional \<open>BlockDecoder\<close>, a counter of the transactions so
  far, and the fault oracles (which statement of which transaction fails, which read fails).
  \<open>pg_Tip\<close>, \<open>pg_RecentBlocks\<close> and \<open>pg_ApplyUpdate\<close> are the three methods of the store.

  The interface \<open>BlockDecoder\<close> is the record \<open>block_decoder\<close>; its contract is the locale of the
  same theory, \<open>decoder_contract\<close>: the UTXO tables are a function \<open>spec\<close> of the blocks applied, and
  a rollback takes back exactly the blocks it names. For every decoder that keeps it, the store
  keeps the contract \<open>chain_store\<close>, with the UTXO tables in step with the chain at every moment
  (\<open>pg_inv\<close>); the decoder of the program is interpreted at the end.
  \<open>pg_tracks\<close>: a database that starts empty holds the blocks of the log of its updates, \<open>logged_blocks\<close>.
\<close>

record block_decoder =
  bd_Apply :: "block list \<Rightarrow> tx \<Rightarrow> err + tx"
  bd_Rollback :: "block list \<Rightarrow> tx \<Rightarrow> err + tx"

definition qi_decoder :: "goquai \<Rightarrow> block_decoder" where
  "qi_decoder g = \<lparr>bd_Apply = DecodeApply g, bd_Rollback = DecodeRollback\<rparr>"

record pool =
  pool_db :: db
  pool_decoder :: "block_decoder option"
  pool_calls :: nat
  pool_fault :: "nat \<Rightarrow> nat \<Rightarrow> err option"
  pool_read_fault :: "nat \<Rightarrow> err option"

definition SetDecoder :: "block_decoder \<Rightarrow> pool \<Rightarrow> pool" where
  "SetDecoder d s = s\<lparr>pool_decoder := Some d\<rparr>"

section \<open>Reading\<close>

definition find_block :: "db \<Rightarrow> string \<Rightarrow> block_row option" where
  "find_block d = map_of (keyed br_hash (t_blocks d))"

definition tip_row :: "db \<Rightarrow> block_row option" where
  "tip_row d = (case t_meta_tip d of None \<Rightarrow> None | Some h \<Rightarrow> find_block d h)"

text \<open>
  \<open>ExchangeRate.SetString(*er, 16)\<close> leaves an unspecified number when the text is not
  hexadecimal; the store only writes texts that are.
\<close>

definition row_block :: "block_row \<Rightarrow> block" where
  "row_block r =
     \<lparr>Height = br_height r, Hash = br_hash r, ParentHash = br_parent_hash r,
      Timestamp = br_block_time r,
      ExchangeRate =
        (case br_exchange_rate r of
           None \<Rightarrow> None
         | Some er \<Rightarrow> Some (case int_SetString 16 er of Some v \<Rightarrow> v | None \<Rightarrow> undefined)),
      Raw = None\<rparr>"

definition pg_Tip :: "pool \<Rightarrow> err + (block \<times> bool)" where
  "pg_Tip s =
     (case pool_read_fault s (pool_calls s) of
        Some e \<Rightarrow> Inl e
      | None \<Rightarrow>
          (case tip_row (pool_db s) of
             None \<Rightarrow> Inr (zero_block, False)
           | Some r \<Rightarrow> Inr (row_block r, True)))"

text \<open>
  The recursive query: the row of the tip at position 1, then the parent's row while the position
  is below \<open>n\<close>. The tip is returned whatever \<open>n\<close> is.
\<close>

fun walk_rows :: "(string \<rightharpoonup> block_row) \<Rightarrow> nat \<Rightarrow> block_row \<Rightarrow> block_row list" where
  "walk_rows look 0 r = [r]"
| "walk_rows look (Suc k) r =
     r # (case look (br_parent_hash r) of None \<Rightarrow> [] | Some p \<Rightarrow> walk_rows look k p)"

definition tip_walk :: "nat \<Rightarrow> db \<Rightarrow> block_row list" where
  "tip_walk n d =
     (case tip_row d of None \<Rightarrow> [] | Some r \<Rightarrow> walk_rows (find_block d) (n - 1) r)"

definition row_spine_block :: "block_row \<Rightarrow> block" where
  "row_spine_block r =
     zero_block\<lparr>Hash := br_hash r, ParentHash := br_parent_hash r, Height := br_height r\<rparr>"

definition pg_RecentBlocks :: "nat \<Rightarrow> pool \<Rightarrow> err + block list" where
  "pg_RecentBlocks n s =
     (case pool_read_fault s (pool_calls s) of
        Some e \<Rightarrow> Inl e
      | None \<Rightarrow> Inr (map row_spine_block (tip_walk n (pool_db s))))"

section \<open>The update transaction\<close>

definition exec_raw :: "u64 list \<Rightarrow> (db \<Rightarrow> db \<times> nat) \<Rightarrow> tx \<Rightarrow> err + tx" where
  "exec_raw args f t = bindE (db_exec args f t) (\<lambda>r. Inr (snd r))"

definition query_meta_tip :: "tx \<Rightarrow> err + (string option \<times> tx)" where
  "query_meta_tip t =
     (case tx_fault t (tx_stmt t) of
        Some e \<Rightarrow> Inl e
      | None \<Rightarrow> Inr (t_meta_tip (tx_db t), t\<lparr>tx_stmt := Suc (tx_stmt t)\<rparr>))"

definition stmt_delete_block :: "string \<Rightarrow> db \<Rightarrow> db \<times> nat" where
  "stmt_delete_block h d =
     (d\<lparr>t_blocks := del_where (\<lambda>r. br_hash r = h) (t_blocks d)\<rparr>,
      length (filter (\<lambda>r. br_hash r = h) (t_blocks d)))"

definition block_to_row :: "block \<Rightarrow> block_row" where
  "block_to_row b =
     \<lparr>br_hash = Hash b, br_parent_hash = ParentHash b, br_height = Height b,
      br_block_time = Timestamp b, br_exchange_rate = map_option (int_Text 16) (ExchangeRate b)\<rparr>"

definition stmt_insert_block :: "block_row \<Rightarrow> db \<Rightarrow> db \<times> nat" where
  "stmt_insert_block r d =
     (d\<lparr>t_blocks := ins_nc br_hash r (t_blocks d)\<rparr>,
      if br_hash r \<in> br_hash ` set (t_blocks d) then 0 else 1)"

definition stmt_set_tip :: "string \<Rightarrow> db \<Rightarrow> db \<times> nat" where
  "stmt_set_tip h d = (d\<lparr>t_meta_tip := Some h\<rparr>, 1)"

definition pg_decode_rollback :: "block_decoder option \<Rightarrow> chain_update \<Rightarrow> tx \<Rightarrow> err + tx" where
  "pg_decode_rollback dec u t =
     (case dec of
        None \<Rightarrow> Inr t
      | Some d \<Rightarrow> if Rollback u = [] then Inr t else wrapE ''utxo rollback'' (bd_Rollback d (Rollback u) t))"

definition pg_decode_apply :: "block_decoder option \<Rightarrow> chain_update \<Rightarrow> tx \<Rightarrow> err + tx" where
  "pg_decode_apply dec u t =
     (case dec of
        None \<Rightarrow> Inr t
      | Some d \<Rightarrow> wrapE ''utxo apply'' (bd_Apply d (Apply u) t))"

definition pg_check :: "chain_update \<Rightarrow> string \<Rightarrow> err + unit" where
  "pg_check u tip =
     bindE (rollback_ok tip (Rollback u))
       (\<lambda>cur.
          if tip \<noteq> [] \<and> ParentHash (hd (Apply u)) \<noteq> cur
          then Inl (Msg (''apply block '' @ Hash (hd (Apply u)) @ '' does not connect to '' @ cur))
          else contiguous_ok (Apply u))"

definition pg_update_tx :: "block_decoder option \<Rightarrow> chain_update \<Rightarrow> tx \<Rightarrow> err + tx" where
  "pg_update_tx dec u t0 =
     bindE (query_meta_tip t0)
       (\<lambda>(v, t).
          let tip = (case v of None \<Rightarrow> [] | Some h \<Rightarrow> h) in
            bindE (pg_check u tip)
              (\<lambda>_. bindE (pg_decode_rollback dec u t)
                 (\<lambda>t1. bindE (foldE (\<lambda>rb. exec_raw [] (stmt_delete_block (Hash rb))) (Rollback u) t1)
                    (\<lambda>t2. bindE (foldE (\<lambda>b. exec_raw [Height b, Timestamp b] (stmt_insert_block (block_to_row b))) (Apply u) t2)
                       (\<lambda>t3. bindE (pg_decode_apply dec u t3)
                          (exec_raw [] (stmt_set_tip (Hash (last (Apply u))))))))))"

definition pg_ApplyUpdate :: "chain_update \<Rightarrow> pool \<Rightarrow> err option \<times> pool" where
  "pg_ApplyUpdate u s =
     (if Apply u = [] then (Some (Msg ''update applies no blocks''), s)
      else case BeginFunc (pool_fault s (pool_calls s)) (pg_update_tx (pool_decoder s) u) (pool_db s) of
        (r, d) \<Rightarrow> (r, s\<lparr>pool_db := d, pool_calls := Suc (pool_calls s)\<rparr>))"

definition postgres_ops :: "pool store_ops" where
  "postgres_ops = \<lparr>st_Tip = pg_Tip, st_RecentBlocks = pg_RecentBlocks, st_ApplyUpdate = pg_ApplyUpdate\<rparr>"

lemma postgres_ops_sel [simp]:
  "st_Tip postgres_ops = pg_Tip" "st_RecentBlocks postgres_ops = pg_RecentBlocks"
  "st_ApplyUpdate postgres_ops = pg_ApplyUpdate"
  by (simp_all add: postgres_ops_def)

section \<open>The tables of the decoder\<close>

text \<open>The database as the decoder sees it: without the blocks and the tip.\<close>

definition core :: "db \<Rightarrow> db" where
  "core d = d\<lparr>t_blocks := [], t_meta_tip := None\<rparr>"

lemma core_eq_iff: "core d = core d' \<longleftrightarrow> t_utxos d = t_utxos d' \<and> t_convs d = t_convs d'"
  by (cases d; cases d') (simp add: core_def)

lemma core_simps [simp]:
  "core (core d) = core d" "core (d\<lparr>t_blocks := x\<rparr>) = core d" "core (d\<lparr>t_meta_tip := y\<rparr>) = core d"
  "core empty_db = empty_db" "t_utxos (core d) = t_utxos d" "t_convs (core d) = t_convs d"
  by (simp_all add: core_def empty_db_def)

lemma core_apply_event: "core (apply_event h ev d) = apply_event h ev (core d)"
  by (cases ev; cases d)
    (simp_all add: core_def stmt_mark_spent_def stmt_insert_utxo_def stmt_insert_conv_def stmt_sweep_def)

lemma core_run_events: "core (run_events h evs d) = run_events h evs (core d)"
  by (induction evs arbitrary: d) (simp_all add: core_apply_event)

lemma core_undo: "core (undo h d) = undo h (core d)"
  by (intro db.equality) (simp_all add: core_def undo_fields)

lemma core_undo_blocks: "core (undo_blocks bs d) = undo_blocks bs (core d)"
  by (induction bs arbitrary: d) (simp_all add: undo_blocks_def core_undo)

lemma replay_core: "replay g bs d = Inr d' \<Longrightarrow> replay g bs (core d) = Inr (core d')"
proof (induction bs arbitrary: d)
  case (Cons b bs)
  then obtain evs where evs: "block_events g b = Inr evs" "replay g bs (run_events (Height b) evs d) = Inr d'"
    by (auto simp: replay_block_def bindE_eq_Inr)
  from Cons.IH [OF evs(2)] evs(1) show ?case by (simp add: replay_block_def core_run_events)
qed simp

locale decoder_contract =
  fixes dec :: block_decoder
    and spec :: "block list \<Rightarrow> db \<Rightarrow> err + db"
  assumes spec_Nil: "spec [] d = Inr d"
    and spec_append: "spec (as @ bs) d = bindE (spec as d) (spec bs)"
    and apply_law: "bd_Apply dec bs t = Inr t' \<Longrightarrow>
      spec bs (core (tx_db t)) = Inr (core (tx_db t')) \<and>
      t_blocks (tx_db t') = t_blocks (tx_db t) \<and> t_meta_tip (tx_db t') = t_meta_tip (tx_db t)"
    and rollback_law: "bd_Rollback dec rs t = Inr t' \<Longrightarrow>
      spec as empty_db = Inr d0 \<Longrightarrow> spec bs d0 = Inr (core (tx_db t)) \<Longrightarrow>
      distinct (map Height (as @ bs)) \<Longrightarrow> map Height rs = rev (map Height bs) \<Longrightarrow>
      core (tx_db t') = d0 \<and>
      t_blocks (tx_db t') = t_blocks (tx_db t) \<and> t_meta_tip (tx_db t') = t_meta_tip (tx_db t)"

lemma undo_blocks_map: "undo_blocks bs d = fold undo (map Height bs) d"
  by (simp add: undo_blocks_def fold_map comp_def)

lemma undo_blocks_heights: "map Height rs = map Height bs \<Longrightarrow> undo_blocks rs d = undo_blocks bs d"
  by (simp only: undo_blocks_map)

lemma undo_blocks_other_tables:
  "t_blocks (undo_blocks bs d) = t_blocks d" "t_meta_tip (undo_blocks bs d) = t_meta_tip d"
  by (induction bs arbitrary: d) (simp_all add: undo_blocks_def undo_fields)

lemma replay_other_tables:
  "replay g bs d = Inr d' \<Longrightarrow> t_blocks d' = t_blocks d \<and> t_meta_tip d' = t_meta_tip d"
  by (induction bs arbitrary: d) (auto simp: replay_block_def bindE_eq_Inr)

interpretation qi: decoder_contract "qi_decoder g" "replay g" for g
proof unfold_locales
  show "replay g [] d = Inr d" for d by simp
  show "replay g (as @ bs) d = bindE (replay g as d) (replay g bs)" for as bs d
    by (rule replay_append)
  show "replay g bs (core (tx_db t)) = Inr (core (tx_db t')) \<and>
      t_blocks (tx_db t') = t_blocks (tx_db t) \<and> t_meta_tip (tx_db t') = t_meta_tip (tx_db t)"
    if "bd_Apply (qi_decoder g) bs t = Inr t'" for bs t t'
  proof -
    from that have "replay g bs (tx_db t) = Inr (tx_db t')"
      using DecodeApply_replay [of g bs t t'] by (simp add: qi_decoder_def)
    with replay_core replay_other_tables show ?thesis by blast
  qed
  show "core (tx_db t') = d0 \<and>
      t_blocks (tx_db t') = t_blocks (tx_db t) \<and> t_meta_tip (tx_db t') = t_meta_tip (tx_db t)"
    if r: "bd_Rollback (qi_decoder g) rs t = Inr t'" and as: "replay g as empty_db = Inr d0"
      and bs: "replay g bs d0 = Inr (core (tx_db t))" and d: "distinct (map Height (as @ bs))"
      and h: "map Height rs = rev (map Height bs)" for rs t t' as bs d0
  proof -
    have u: "tx_db t' = undo_blocks rs (tx_db t)"
      using r DecodeRollback_undo [of rs t t'] by (simp add: qi_decoder_def)
    have "db_ok d0" using replay_facts [OF as db_ok_empty] by blast
    moreover have "\<forall>b \<in> set bs. fresh_at (Height b) d0"
    proof
      fix b assume "b \<in> set bs"
      with d have "Height b \<notin> Height ` set as" by auto
      with replay_facts [OF as db_ok_empty, of "Height b"] fresh_at_empty show "fresh_at (Height b) d0"
        by blast
    qed
    ultimately have "undo_blocks (rev bs) (core (tx_db t)) = d0"
      using undo_blocks_replay [OF bs] d by simp
    moreover have "undo_blocks rs (core (tx_db t)) = undo_blocks (rev bs) (core (tx_db t))"
      using h by (intro undo_blocks_heights) (simp add: rev_map)
    ultimately show ?thesis
      by (simp add: u core_undo_blocks undo_blocks_other_tables)
  qed
qed

section \<open>What the database holds\<close>

text \<open>
  \<open>pg_holds dec spec bs s\<close>: \<open>bs\<close> are the blocks of the chain, oldest first. Their rows are the
  rows of \<open>blocks\<close>, the tip is the last one, and the decoder's tables are what \<open>spec\<close> makes of
  exactly these blocks.
\<close>

definition chain_of :: "block list \<Rightarrow> spine list" where
  "chain_of bs = map spine_of (rev bs)"

definition pg_holds ::
  "block_decoder \<Rightarrow> (block list \<Rightarrow> db \<Rightarrow> err + db) \<Rightarrow> block list \<Rightarrow> pool \<Rightarrow> bool" where
  "pg_holds dec spec bs s \<longleftrightarrow>
     good_chain (chain_of bs) \<and> pool_decoder s = Some dec \<and>
     t_meta_tip (pool_db s) = (if bs = [] then None else Some (Hash (last bs))) \<and>
     distinct (map br_hash (t_blocks (pool_db s))) \<and>
     set (t_blocks (pool_db s)) = block_to_row ` set bs \<and>
     spec bs empty_db = Inr (core (pool_db s))"

definition pg_inv :: "block_decoder \<Rightarrow> (block list \<Rightarrow> db \<Rightarrow> err + db) \<Rightarrow> pool \<Rightarrow> bool" where
  "pg_inv dec spec s \<longleftrightarrow> (\<exists>bs. pg_holds dec spec bs s)"

definition row_spine :: "block_row \<Rightarrow> spine" where
  "row_spine r = (br_hash r, br_parent_hash r, br_height r)"

definition pg_canon :: "pool \<Rightarrow> spine list" where
  "pg_canon s = map row_spine (tip_walk (length (t_blocks (pool_db s))) (pool_db s))"

lemma block_to_row_sel [simp]:
  "br_hash (block_to_row b) = Hash b" "br_parent_hash (block_to_row b) = ParentHash b"
  "br_height (block_to_row b) = Height b" "br_block_time (block_to_row b) = Timestamp b"
  "row_spine (block_to_row b) = spine_of b"
  by (simp_all add: block_to_row_def row_spine_def spine_of_def)

lemma row_block_of: "row_block (block_to_row b) = b\<lparr>Raw := None\<rparr>"
  by (cases "ExchangeRate b")
    (auto simp: row_block_def block_to_row_def int_SetString_Text intro!: block.equality)

lemma spine_of_row_block: "spine_of (row_block r) = row_spine r" "spine_of (row_spine_block r) = row_spine r"
  by (simp_all add: spine_of_def row_block_def row_spine_block_def row_spine_def)

lemma chain_of_simps [simp]:
  "chain_of [] = []" "chain_of (as @ bs) = chain_of bs @ chain_of as" "length (chain_of bs) = length bs"
  "set (chain_of bs) = spine_of ` set bs" "chain_of bs = [] \<longleftrightarrow> bs = []"
  by (simp_all add: chain_of_def)

lemma chain_of_hd: "bs \<noteq> [] \<Longrightarrow> hd (chain_of bs) = spine_of (last bs)"
  by (simp add: chain_of_def hd_map hd_rev)

lemma chain_of_hashes: "map sp_hash (chain_of bs) = rev (map Hash bs)"
  by (simp add: chain_of_def rev_map)

lemma good_chain_distinct:
  "good_chain (chain_of bs) \<Longrightarrow> distinct (map Hash bs) \<and> distinct (map Height bs) \<and> [] \<notin> Hash ` set bs"
  by (auto simp: good_chain_def rooted_def chain_of_def comp_def image_image rev_map [symmetric])

lemma walk_rows_chain:
  assumes "linked (map spine_of cs)" "cs \<noteq> []"
    and "\<And>b. b \<in> set cs \<Longrightarrow> look (Hash b) = Some (block_to_row b)" "look (ParentHash (last cs)) = None"
  shows "walk_rows look k (block_to_row (hd cs)) = take (Suc k) (map block_to_row cs)"
  using assms
proof (induction cs arbitrary: k)
  case (Cons c cs)
  show ?case
  proof (cases "k = 0 \<or> cs = []")
    case True
    then show ?thesis using Cons.prems(4) by (cases k) auto
  next
    case False
    then obtain j where k: "k = Suc j" by (cases k) auto
    have "ParentHash c = Hash (hd cs)"
      using Cons.prems(1) False by (auto simp: linked_Cons hd_map)
    moreover have "look (Hash (hd cs)) = Some (block_to_row (hd cs))"
      using Cons.prems(3) False by simp
    moreover have "walk_rows look j (block_to_row (hd cs)) = take (Suc j) (map block_to_row cs)"
      using Cons.prems False by (intro Cons.IH) (auto simp: linked_Cons)
    ultimately show ?thesis by (simp add: k)
  qed
qed simp

lemma pg_holds_find:
  assumes "pg_holds dec spec bs s"
  shows "b \<in> set bs \<Longrightarrow> find_block (pool_db s) (Hash b) = Some (block_to_row b)"
    and "h \<notin> Hash ` set bs \<Longrightarrow> find_block (pool_db s) h = None"
proof -
  from assms have d: "distinct (map br_hash (t_blocks (pool_db s)))"
    and st: "set (t_blocks (pool_db s)) = block_to_row ` set bs"
    by (simp_all add: pg_holds_def)
  show "b \<in> set bs \<Longrightarrow> find_block (pool_db s) (Hash b) = Some (block_to_row b)"
    using map_of_keyed_Some [OF d, of "block_to_row b"] st by (simp add: find_block_def)
  show "h \<notin> Hash ` set bs \<Longrightarrow> find_block (pool_db s) h = None"
    by (auto simp: find_block_def map_of_keyed_None st)
qed

lemma pg_holds_tip:
  "pg_holds dec spec bs s \<Longrightarrow>
   tip_row (pool_db s) = (if bs = [] then None else Some (block_to_row (last bs)))"
  using pg_holds_find(1) [of dec spec bs s "last bs"]
  by (cases "bs = []") (auto simp: tip_row_def pg_holds_def)

lemma pg_holds_walk:
  assumes "pg_holds dec spec bs s" "0 < n"
  shows "tip_walk n (pool_db s) = take n (map block_to_row (rev bs))"
proof (cases "bs = []")
  case True
  with pg_holds_tip [OF assms(1)] show ?thesis by (simp add: tip_walk_def)
next
  case False
  have "good_chain (chain_of bs)" using assms(1) by (simp add: pg_holds_def)
  then have "linked (map spine_of (rev bs))" "ParentHash (last (rev bs)) \<notin> Hash ` set bs"
    using False by (auto simp: good_chain_def rooted_def chain_of_def image_image last_map)
  then have "walk_rows (find_block (pool_db s)) (n - 1) (block_to_row (hd (rev bs))) =
    take (Suc (n - 1)) (map block_to_row (rev bs))"
    using False pg_holds_find [OF assms(1)] by (intro walk_rows_chain) auto
  with False assms(2) pg_holds_tip [OF assms(1)] show ?thesis by (simp add: tip_walk_def hd_rev)
qed

lemma pg_holds_canon: "pg_holds dec spec bs s \<Longrightarrow> pg_canon s = chain_of bs"
proof -
  assume h: "pg_holds dec spec bs s"
  then have "distinct (map br_hash (t_blocks (pool_db s)))" "distinct (map Hash bs)"
    and st: "set (t_blocks (pool_db s)) = block_to_row ` set bs"
    using good_chain_distinct by (auto simp: pg_holds_def)
  then have "length (t_blocks (pool_db s)) = card (br_hash ` set (t_blocks (pool_db s)))"
    "length bs = card (Hash ` set bs)"
    by (metis distinct_card length_map list.set_map)+
  then have len: "length (t_blocks (pool_db s)) = length bs"
    by (simp add: st image_image)
  show ?thesis
  proof (cases "bs = []")
    case True
    with pg_holds_tip [OF h] show ?thesis by (simp add: pg_canon_def tip_walk_def)
  next
    case False
    then have "0 < length (t_blocks (pool_db s))" by (simp add: len)
    with pg_holds_walk [OF h this] show ?thesis
      by (simp add: pg_canon_def len chain_of_def comp_def)
  qed
qed

section \<open>The statements of the update\<close>

lemma exec_raw_Inr:
  "exec_raw args f t = Inr t' \<Longrightarrow> tx_db t' = fst (f (tx_db t)) \<and> tx_fault t' = tx_fault t"
  by (auto simp: exec_raw_def db_exec_Inr bindE_eq_Inr)

lemma delete_blocks:
  "foldE (\<lambda>rb. exec_raw [] (stmt_delete_block (Hash rb))) rs t = Inr t' \<Longrightarrow>
   tx_db t' = (tx_db t)\<lparr>t_blocks := filter (\<lambda>r. br_hash r \<notin> Hash ` set rs) (t_blocks (tx_db t))\<rparr> \<and>
   tx_fault t' = tx_fault t"
  by (induction rs arbitrary: t)
    (auto simp: bindE_eq_Inr stmt_delete_block_def del_where_def dest!: exec_raw_Inr
      intro!: filter_cong)

lemma insert_blocks:
  "foldE (\<lambda>b. exec_raw [Height b, Timestamp b] (stmt_insert_block (block_to_row b))) bs t = Inr t' \<Longrightarrow>
   distinct (map Hash bs) \<Longrightarrow> Hash ` set bs \<inter> br_hash ` set (t_blocks (tx_db t)) = {} \<Longrightarrow>
   tx_db t' = (tx_db t)\<lparr>t_blocks := t_blocks (tx_db t) @ map block_to_row bs\<rparr> \<and>
   tx_fault t' = tx_fault t"
proof (induction bs arbitrary: t)
  case (Cons b bs)
  then obtain t1 where t1: "exec_raw [Height b, Timestamp b] (stmt_insert_block (block_to_row b)) t = Inr t1"
    "foldE (\<lambda>b. exec_raw [Height b, Timestamp b] (stmt_insert_block (block_to_row b))) bs t1 = Inr t'"
    by (auto simp: bindE_eq_Inr)
  have e: "tx_db t1 = (tx_db t)\<lparr>t_blocks := t_blocks (tx_db t) @ [block_to_row b]\<rparr>" "tx_fault t1 = tx_fault t"
    using exec_raw_Inr [OF t1(1)] Cons.prems(3) by (auto simp: stmt_insert_block_def ins_nc_def)
  have "Hash ` set bs \<inter> br_hash ` set (t_blocks (tx_db t1)) = {}"
    using Cons.prems(2,3) e by auto
  with Cons.IH [OF t1(2)] Cons.prems(2) e show ?case by simp
qed simp

lemma pg_ApplyUpdate_failed:
  "pg_ApplyUpdate u s = (Some e, s') \<Longrightarrow> pool_db s' = pool_db s \<and> pool_decoder s' = pool_decoder s"
  by (auto simp: pg_ApplyUpdate_def dest: BeginFunc_failed split: if_splits prod.splits)

lemma pg_ApplyUpdate_done:
  assumes "pg_ApplyUpdate u s = (None, s')"
  shows "Apply u \<noteq> [] \<and> pool_decoder s' = pool_decoder s \<and>
    (\<exists>t0 t'. tx_db t0 = pool_db s \<and> pg_update_tx (pool_decoder s) u t0 = Inr t' \<and> pool_db s' = tx_db t')"
proof -
  let ?f = "pool_fault s (pool_calls s)"
  from assms obtain d where d: "Apply u \<noteq> []"
    "BeginFunc ?f (pg_update_tx (pool_decoder s) u) (pool_db s) = (None, d)"
    "s' = s\<lparr>pool_db := d, pool_calls := Suc (pool_calls s)\<rparr>"
    by (auto simp: pg_ApplyUpdate_def split: if_splits prod.splits)
  from BeginFunc_done [OF d(2)] obtain t' where
    "pg_update_tx (pool_decoder s) u \<lparr>tx_db = pool_db s, tx_stmt = 1, tx_fault = ?f\<rparr> = Inr t'" "d = tx_db t'"
    by blast
  with d(1,3) show ?thesis
    by (intro conjI exI [of _ "\<lparr>tx_db = pool_db s, tx_stmt = 1, tx_fault = ?f\<rparr>"] exI [of _ t']) simp_all
qed

lemma pg_check_iff:
  assumes "good_chain cs" "set (rolled u) \<subseteq> set cs" "Apply u \<noteq> []"
  shows "pg_check u (tip_hash cs) = Inr () \<longleftrightarrow> connects u cs"
proof (cases "rollback_ok (tip_hash cs) (Rollback u)")
  case (Inl e)
  have "\<not> connects u cs"
    using rollback_ok_accepts [of cs "Rollback u"] assms(1) Inl
    by (auto simp: connects_def rolled_def good_chain_def)
  with Inl show ?thesis by (simp add: pg_check_def)
next
  case (Inr cur)
  have "rolled u = take (length (Rollback u)) cs" "cur = base_hash (length (Rollback u)) cs"
    using rollback_ok_prefix [OF assms(1) _ Inr] assms(2) by (auto simp: rolled_def)
  moreover have "tip_hash cs = [] \<longleftrightarrow> cs = []"
    using assms(1) by (cases cs) (auto simp: tip_hash_def good_chain_def rooted_def)
  ultimately show ?thesis
    using Inr assms(3) contiguous_ok_iff [of "Apply u"]
    by (auto simp: pg_check_def connects_def applied_def)
qed

section \<open>The contract, for every decoder\<close>

text \<open>The blocks of the chain after an update.\<close>

definition moved_blocks :: "chain_update \<Rightarrow> block list \<Rightarrow> block list" where
  "moved_blocks u bs = take (length bs - length (Rollback u)) bs @ Apply u"

text \<open>The blocks of the chain that a log of updates leaves, starting from none.\<close>

definition logged_blocks :: "chain_update list \<Rightarrow> block list" where
  "logged_blocks us = fold moved_blocks us []"

lemma logged_blocks_simps [simp]:
  "logged_blocks [] = []" "logged_blocks (us @ [u]) = moved_blocks u (logged_blocks us)"
  by (simp_all add: logged_blocks_def)

lemma logged_blocks_applied: "set (logged_blocks us) \<subseteq> (\<Union>u \<in> set us. set (Apply u))"
proof (induction us rule: rev_induct)
  case (snoc u us)
  then show ?case by (auto simp: moved_blocks_def dest!: in_set_takeD)
qed simp

lemma chain_of_moved: "chain_of (moved_blocks u bs) = moved u (chain_of bs)"
  by (cases "length (Rollback u) \<le> length bs")
    (simp_all add: moved_blocks_def moved_def applied_def chain_of_def rev_map take_map drop_map rev_take)

lemma rolled_heights:
  assumes "rolled u = take (length (Rollback u)) (chain_of bs)"
  shows "map Height (Rollback u) = rev (map Height (drop (length bs - length (Rollback u)) bs))"
    "Hash ` set (Rollback u) = Hash ` set (drop (length bs - length (Rollback u)) bs)"
proof -
  let ?k = "length (Rollback u)"
  have e: "map spine_of (Rollback u) = rev (map spine_of (drop (length bs - ?k) bs))"
    using assms by (simp add: rolled_def chain_of_def rev_map take_map take_rev)
  from arg_cong [OF e, of "map sp_height"]
  show "map Height (Rollback u) = rev (map Height (drop (length bs - ?k) bs))"
    by (simp add: rev_map comp_def)
  from arg_cong [OF e, of "map sp_hash"]
  have "map Hash (Rollback u) = rev (map Hash (drop (length bs - ?k) bs))"
    by (simp add: rev_map comp_def)
  from arg_cong [OF this, of set]
  show "Hash ` set (Rollback u) = Hash ` set (drop (length bs - ?k) bs)" by simp
qed

lemma drop_hash_rows:
  assumes "distinct (map Hash bs)"
  shows "{r \<in> block_to_row ` set bs. br_hash r \<notin> Hash ` set (drop n bs)} = block_to_row ` set (take n bs)"
proof -
  have "bs = take n bs @ drop n bs" by simp
  then have u: "set bs = set (take n bs) \<union> set (drop n bs)" by (metis set_append)
  have "distinct (map Hash (take n bs) @ map Hash (drop n bs))"
    using assms by (simp add: take_map [symmetric] drop_map [symmetric] del: take_map drop_map)
  then have "Hash ` set (take n bs) \<inter> Hash ` set (drop n bs) = {}" by simp
  then show ?thesis unfolding u by auto
qed

lemma pg_update_tx_Inr:
  "pg_update_tx dec u t0 = Inr t' \<Longrightarrow>
   \<exists>tr td ti ta.
     pg_check u (case t_meta_tip (tx_db t0) of None \<Rightarrow> [] | Some h \<Rightarrow> h) = Inr () \<and>
     pg_decode_rollback dec u (t0\<lparr>tx_stmt := Suc (tx_stmt t0)\<rparr>) = Inr tr \<and>
     foldE (\<lambda>rb. exec_raw [] (stmt_delete_block (Hash rb))) (Rollback u) tr = Inr td \<and>
     foldE (\<lambda>b. exec_raw [Height b, Timestamp b] (stmt_insert_block (block_to_row b))) (Apply u) td = Inr ti \<and>
     pg_decode_apply dec u ti = Inr ta \<and>
     exec_raw [] (stmt_set_tip (Hash (last (Apply u)))) ta = Inr t'"
  by (auto simp: pg_update_tx_def query_meta_tip_def bindE_eq_Inr Let_def split: option.splits)

context decoder_contract
begin

lemma pg_tx_connects:
  assumes "pg_holds dec spec bs s" "fits u (chain_of bs)" "Apply u \<noteq> []" "tx_db t0 = pool_db s"
    and "pg_update_tx (Some dec) u t0 = Inr t'"
  shows "connects u (chain_of bs)"
proof -
  have g: "good_chain (chain_of bs)" and
    m: "t_meta_tip (pool_db s) = (if bs = [] then None else Some (Hash (last bs)))"
    using assms(1) by (simp_all add: pg_holds_def)
  have "(case t_meta_tip (pool_db s) of None \<Rightarrow> [] | Some h \<Rightarrow> h) = tip_hash (chain_of bs)"
    unfolding m by (cases "bs = []") (simp_all add: tip_hash_def chain_of_def hd_map hd_rev)
  with assms(4) pg_update_tx_Inr [OF assms(5)] have "pg_check u (tip_hash (chain_of bs)) = Inr ()"
    by metis
  with pg_check_iff [OF g _ assms(3)] assms(2) show ?thesis by (simp add: fits_def)
qed

text \<open>The decoder's rollback leaves the replay of the blocks that stay.\<close>

lemma pg_rollback_stage:
  assumes h: "pg_holds dec spec bs s" and con: "connects u (chain_of bs)"
    and t: "tx_db t = pool_db s" "pg_decode_rollback (Some dec) u t = Inr tr"
  shows "spec (take (length bs - length (Rollback u)) bs) empty_db = Inr (core (tx_db tr)) \<and>
    t_blocks (tx_db tr) = t_blocks (pool_db s)"
proof -
  let ?n = "length bs - length (Rollback u)"
  have g: "good_chain (chain_of bs)" and sp: "spec bs empty_db = Inr (core (pool_db s))"
    using h by (simp_all add: pg_holds_def)
  have "rolled u = take (length (Rollback u)) (chain_of bs)" using con by (simp add: connects_def)
  note rh = rolled_heights [OF this]
  obtain d0 where d0: "spec (take ?n bs) empty_db = Inr d0" "spec (drop ?n bs) d0 = Inr (core (tx_db t))"
    using sp spec_append [of "take ?n bs" "drop ?n bs"] t(1) by (auto simp: bindE_eq_Inr)
  have "core (tx_db tr) = d0 \<and> t_blocks (tx_db tr) = t_blocks (tx_db t)"
  proof (cases "Rollback u = []")
    case True
    with t(2) d0 spec_Nil show ?thesis by (simp add: pg_decode_rollback_def)
  next
    case False
    then have "bd_Rollback dec (Rollback u) t = Inr tr" using t(2) by (simp add: pg_decode_rollback_def)
    from rollback_law [OF this d0] good_chain_distinct [OF g] rh(1) show ?thesis by simp
  qed
  with t(1) d0(1) show ?thesis by simp
qed

text \<open>Deleting the rolled-back rows and inserting the applied ones makes the table of the moved chain.\<close>

lemma pg_table_stage:
  assumes h: "pg_holds dec spec bs s" and con: "connects u (chain_of bs)"
    and g': "good_chain (chain_of (moved_blocks u bs))"
    and tr: "t_blocks (tx_db tr) = t_blocks (pool_db s)"
    and td: "foldE (\<lambda>rb. exec_raw [] (stmt_delete_block (Hash rb))) (Rollback u) tr = Inr td"
    and ti: "foldE (\<lambda>b. exec_raw [Height b, Timestamp b] (stmt_insert_block (block_to_row b))) (Apply u) td = Inr ti"
  shows "core (tx_db ti) = core (tx_db tr) \<and> set (t_blocks (tx_db ti)) = block_to_row ` set (moved_blocks u bs) \<and>
    distinct (map br_hash (t_blocks (tx_db ti)))"
proof -
  let ?n = "length bs - length (Rollback u)"
  have g: "good_chain (chain_of bs)" and rows: "set (t_blocks (pool_db s)) = block_to_row ` set bs"
    and d: "distinct (map br_hash (t_blocks (pool_db s)))"
    using h by (simp_all add: pg_holds_def)
  have "rolled u = take (length (Rollback u)) (chain_of bs)" using con by (simp add: connects_def)
  note rh = rolled_heights [OF this]
  have td': "t_blocks (tx_db td) = filter (\<lambda>r. br_hash r \<notin> Hash ` set (drop ?n bs)) (t_blocks (pool_db s))"
    "core (tx_db td) = core (tx_db tr)"
    using delete_blocks [OF td] tr rh(2) by simp_all
  have rows_d: "set (t_blocks (tx_db td)) = block_to_row ` set (take ?n bs)"
    using drop_hash_rows [of bs ?n] good_chain_distinct [OF g] by (simp add: td'(1) rows)
  have dd: "distinct (map br_hash (t_blocks (tx_db td)))"
    using d by (simp add: td'(1) distinct_map_filter)
  have mv: "distinct (map Hash (take ?n bs @ Apply u))"
    using good_chain_distinct [OF g'] by (simp add: moved_blocks_def)
  then have fresh: "distinct (map Hash (Apply u))" "Hash ` set (Apply u) \<inter> br_hash ` set (t_blocks (tx_db td)) = {}"
    by (auto simp: rows_d image_image)
  have ti': "t_blocks (tx_db ti) = t_blocks (tx_db td) @ map block_to_row (Apply u)" "core (tx_db ti) = core (tx_db td)"
    using insert_blocks [OF ti fresh] by simp_all
  show ?thesis using rows_d dd fresh td'(2) by (auto simp: moved_blocks_def ti' comp_def)
qed

lemma pg_tx_holds:
  assumes h: "pg_holds dec spec bs s" and fit: "fits u (chain_of bs)" and ne: "Apply u \<noteq> []"
    and db: "tx_db t0 = pool_db s" and run: "pg_update_tx (Some dec) u t0 = Inr t'"
    and s': "pool_db s' = tx_db t'" "pool_decoder s' = Some dec"
  shows "pg_holds dec spec (moved_blocks u bs) s'"
proof -
  have con: "connects u (chain_of bs)" by (rule pg_tx_connects [OF h fit ne db run])
  have "good_chain (chain_of bs)" using h by (simp add: pg_holds_def)
  from connects_good [OF this fit con] have g': "good_chain (chain_of (moved_blocks u bs))"
    unfolding chain_of_moved .
  define t where "t = t0\<lparr>tx_stmt := Suc (tx_stmt t0)\<rparr>"
  obtain tr td ti ta where t2: "pg_decode_rollback (Some dec) u t = Inr tr"
    and td: "foldE (\<lambda>rb. exec_raw [] (stmt_delete_block (Hash rb))) (Rollback u) tr = Inr td"
    and ti: "foldE (\<lambda>b. exec_raw [Height b, Timestamp b] (stmt_insert_block (block_to_row b))) (Apply u) td = Inr ti"
    and ta: "pg_decode_apply (Some dec) u ti = Inr ta"
    and tt: "exec_raw [] (stmt_set_tip (Hash (last (Apply u)))) ta = Inr t'"
    using pg_update_tx_Inr [OF run] unfolding t_def by blast
  have "tx_db t = pool_db s" using db by (simp add: t_def)
  note tr = pg_rollback_stage [OF h con this t2]
  note ti' = pg_table_stage [OF h con g' conjunct2 [OF tr] td ti]
  have ta': "spec (Apply u) (core (tx_db ti)) = Inr (core (tx_db ta))" "t_blocks (tx_db ta) = t_blocks (tx_db ti)"
    using ta apply_law [of "Apply u" ti ta] by (simp_all add: pg_decode_apply_def)
  have t': "tx_db t' = (tx_db ta)\<lparr>t_meta_tip := Some (Hash (last (Apply u)))\<rparr>"
    using exec_raw_Inr [OF tt] by (simp add: stmt_set_tip_def)
  have "spec (moved_blocks u bs) empty_db = Inr (core (tx_db ta))"
    using ta'(1) tr ti' by (simp add: moved_blocks_def spec_append)
  with g' ti' ne show ?thesis
    unfolding pg_holds_def s' t' by (simp add: ta'(2)) (simp add: moved_blocks_def)
qed

lemma pg_update_holds:
  assumes "pg_holds dec spec bs s" "fits u (chain_of bs)" "pg_ApplyUpdate u s = (None, s')"
  shows "connects u (chain_of bs) \<and> pg_holds dec spec (moved_blocks u bs) s'"
proof -
  have "pool_decoder s = Some dec" using assms(1) by (simp add: pg_holds_def)
  with pg_ApplyUpdate_done [OF assms(3)] obtain t0 t' where t: "Apply u \<noteq> []"
    "pool_decoder s' = Some dec" "tx_db t0 = pool_db s" "pg_update_tx (Some dec) u t0 = Inr t'"
    "pool_db s' = tx_db t'"
    by auto
  from pg_tx_connects [OF assms(1,2) t(1,3,4)] pg_tx_holds [OF assms(1,2) t(1,3,4,5,2)]
  show ?thesis by blast
qed

end

sublocale decoder_contract \<subseteq> pg: chain_store postgres_ops "pg_inv dec spec" pg_canon
proof (unfold_locales, unfold postgres_ops_sel)
  show "pg_inv dec spec s \<Longrightarrow> good_chain (pg_canon s)" for s
    using pg_holds_canon by (fastforce simp: pg_inv_def pg_holds_def)
  show "found = (pg_canon s \<noteq> []) \<and> (pg_canon s \<noteq> [] \<longrightarrow> spine_of b = hd (pg_canon s))"
    if "pg_inv dec spec s" "pg_Tip s = Inr (b, found)" for s b found
  proof -
    from that(1) obtain bs where h: "pg_holds dec spec bs s" by (auto simp: pg_inv_def)
    from that(2) pg_holds_tip [OF h] pg_holds_canon [OF h] show ?thesis
      by (cases "bs = []")
        (auto simp: pg_Tip_def chain_of_def hd_map hd_rev spine_of_row_block split: option.splits)
  qed
  show "map spine_of bs = take n (pg_canon s)"
    if "pg_inv dec spec s" "0 < n" "pg_RecentBlocks n s = Inr bs" for s n bs
  proof -
    from that(1) obtain cs where h: "pg_holds dec spec cs s" by (auto simp: pg_inv_def)
    from that(3) pg_holds_walk [OF h that(2)] pg_holds_canon [OF h] show ?thesis
      by (auto simp: pg_RecentBlocks_def chain_of_def take_map spine_of_row_block comp_def
          split: option.splits)
  qed
  show "pg_inv dec spec s' \<and> pg_canon s' = moved u (pg_canon s) \<and> connects u (pg_canon s)"
    if "pg_inv dec spec s" "fits u (pg_canon s)" "pg_ApplyUpdate u s = (None, s')" for s u s'
  proof -
    from that(1) obtain bs where h: "pg_holds dec spec bs s" by (auto simp: pg_inv_def)
    note c = pg_holds_canon [OF h]
    have fit: "fits u (chain_of bs)" using that(2) c by simp
    note u = pg_update_holds [OF h fit that(3)]
    then show ?thesis
      using pg_holds_canon [of dec spec "moved_blocks u bs" s'] c by (auto simp: pg_inv_def chain_of_moved)
  qed
  show "pg_inv dec spec s' \<and> pg_canon s' = pg_canon s"
    if "pg_inv dec spec s" "pg_ApplyUpdate u s = (Some e, s')" for s u e s'
    using that(1) pg_ApplyUpdate_failed [OF that(2)]
    by (auto simp: pg_inv_def pg_holds_def pg_canon_def)
qed

text \<open>A database that starts empty holds the blocks of the log of updates, bodies included.\<close>

context decoder_contract
begin

lemma pg_tracks:
  "tracks postgres_ops (pg_inv dec spec) pg_canon (\<lambda>us s. pg_holds dec spec (logged_blocks us) s)"
proof (unfold tracks_def postgres_ops_sel, intro conjI allI impI)
  show "pg_holds dec spec (logged_blocks us) s'"
    if "pg_holds dec spec (logged_blocks us) s" "pg_ApplyUpdate u s = (Some e, s')" for us s u e s'
    using that(1) pg_ApplyUpdate_failed [OF that(2)] by (simp add: pg_holds_def)
  show "pg_holds dec spec (logged_blocks (us @ [u])) s'"
    if h: "pg_holds dec spec (logged_blocks us) s" and "fits u (pg_canon s)" "pg_ApplyUpdate u s = (None, s')" for us s u s'
    using pg_update_holds [OF h _ that(3)] that(2) pg_holds_canon [OF h] by simp
qed

end

section \<open>Acceptance\<close>

lemma exec_raw_total:
  "no_fault t \<Longrightarrow> list_all bigint_fits args \<Longrightarrow> \<exists>t'. exec_raw args f t = Inr t' \<and> no_fault t'"
  by (simp add: exec_raw_def bindE_eq_Inr db_exec_Inr no_fault_def)

lemma exec_loop_total:
  "no_fault t \<Longrightarrow> (\<And>x. x \<in> set xs \<Longrightarrow> list_all bigint_fits (args x)) \<Longrightarrow>
   \<exists>t'. foldE (\<lambda>x. exec_raw (args x) (f x)) xs t = Inr t' \<and> no_fault t'"
  by (rule foldE_total) (auto intro: exec_raw_total)

lemma qi_rollback_total:
  assumes "no_fault t" "\<forall>b \<in> set (Rollback u). bigint_fits (Height b)"
  shows "\<exists>t'. pg_decode_rollback (Some (qi_decoder g)) u t = Inr t' \<and> no_fault t'"
proof -
  obtain t' where "DecodeRollback (Rollback u) t = Inr t'" "no_fault t'"
    using DecodeRollback_total [OF assms] by blast
  with assms(1) show ?thesis by (simp add: pg_decode_rollback_def qi_decoder_def)
qed

lemma qi_apply_total:
  assumes "no_fault t" "\<And>b. b \<in> set (Apply u) \<Longrightarrow> \<exists>evs. block_events g b = Inr evs"
  shows "\<exists>t'. pg_decode_apply (Some (qi_decoder g)) u t = Inr t' \<and> no_fault t'"
proof -
  obtain d where "replay g (Apply u) (tx_db t) = Inr d" using replay_total [OF assms(2)] by blast
  from DecodeApply_total [OF this assms(1)] obtain t' where t': "DecodeApply g (Apply u) t = Inr t'" by blast
  with DecodeApply_replay [OF t'] assms(1) show ?thesis
    by (simp add: pg_decode_apply_def qi_decoder_def no_fault_def)
qed

lemma pg_update_tx_total:
  assumes "no_fault t0" "pg_check u (case t_meta_tip (tx_db t0) of None \<Rightarrow> [] | Some h \<Rightarrow> h) = Inr ()"
    and "\<And>b. b \<in> set (Apply u) \<Longrightarrow> (\<exists>evs. block_events g b = Inr evs) \<and> bigint_fits (Timestamp b)"
    and "\<forall>b \<in> set (Rollback u). bigint_fits (Height b)"
  shows "\<exists>t'. pg_update_tx (Some (qi_decoder g)) u t0 = Inr t' \<and> no_fault t'"
proof -
  let ?t = "t0\<lparr>tx_stmt := Suc (tx_stmt t0)\<rparr>"
  have q: "query_meta_tip t0 = Inr (t_meta_tip (tx_db t0), ?t)"
    using assms(1) by (simp add: query_meta_tip_def no_fault_def)
  have "no_fault ?t" using assms(1) by (simp add: no_fault_def)
  then obtain t1 where t1: "pg_decode_rollback (Some (qi_decoder g)) u ?t = Inr t1" "no_fault t1"
    using qi_rollback_total assms(4) by blast
  obtain t2 where t2: "foldE (\<lambda>rb. exec_raw [] (stmt_delete_block (Hash rb))) (Rollback u) t1 = Inr t2" "no_fault t2"
    using exec_loop_total [OF t1(2), of _ "\<lambda>_. []" "\<lambda>rb. stmt_delete_block (Hash rb)"] by auto
  have "list_all bigint_fits [Height b, Timestamp b]" if "b \<in> set (Apply u)" for b
    using assms(3) [OF that] block_events_sweep by auto
  then obtain t3 where t3: "foldE (\<lambda>b. exec_raw [Height b, Timestamp b] (stmt_insert_block (block_to_row b))) (Apply u) t2 = Inr t3" "no_fault t3"
    using exec_loop_total [OF t2(2), of _ "\<lambda>b. [Height b, Timestamp b]" "\<lambda>b. stmt_insert_block (block_to_row b)"]
    by blast
  obtain t4 where t4: "pg_decode_apply (Some (qi_decoder g)) u t3 = Inr t4" "no_fault t4"
    using qi_apply_total [OF t3(2)] assms(3) by blast
  obtain t5 where t5: "exec_raw [] (stmt_set_tip (Hash (last (Apply u)))) t4 = Inr t5" "no_fault t5"
    using exec_raw_total [OF t4(2), of "[]"] by auto
  show ?thesis
    using q assms(2) t1 t2 t3 t4 t5 by (simp add: pg_update_tx_def Let_def)
qed

lemma pg_holds_meta:
  "pg_holds dec spec bs s \<Longrightarrow>
   (case t_meta_tip (pool_db s) of None \<Rightarrow> [] | Some h \<Rightarrow> h) = tip_hash (chain_of bs)"
  by (cases "bs = []") (simp_all add: pg_holds_def tip_hash_def chain_of_def hd_map hd_rev)

text \<open>What was replayed has heights that fit, so it can be rolled back.\<close>

lemma replay_events: "replay g bs d = Inr d' \<Longrightarrow> b \<in> set bs \<Longrightarrow> \<exists>evs. block_events g b = Inr evs"
  by (induction bs arbitrary: d) (auto simp: replay_block_def bindE_eq_Inr)

lemma replay_heights: "replay g bs d = Inr d' \<Longrightarrow> b \<in> set bs \<Longrightarrow> bigint_fits (Height b)"
  using replay_events block_events_sweep by blast

lemma pg_holds_rollback_fits:
  assumes "pg_holds dec (replay g) bs s" "rolled u = take (length (Rollback u)) (chain_of bs)"
  shows "\<forall>b \<in> set (Rollback u). bigint_fits (Height b)"
proof -
  have "replay g bs empty_db = Inr (core (pool_db s))" using assms(1) by (simp add: pg_holds_def)
  note fits = replay_heights [OF this]
  have "set (map Height (Rollback u)) \<subseteq> Height ` set bs"
    unfolding rolled_heights(1) [OF assms(2)] by (auto dest: in_set_dropD)
  with fits show ?thesis by fastforce
qed

lemma pg_accepts:
  assumes "pg_holds (qi_decoder g) (replay g) bs s" "connects u (chain_of bs)"
    and "pool_fault s (pool_calls s) = (\<lambda>_. None)"
    and "\<And>b. b \<in> set (Apply u) \<Longrightarrow> (\<exists>evs. block_events g b = Inr evs) \<and> bigint_fits (Timestamp b)"
  shows "\<exists>s'. pg_ApplyUpdate u s = (None, s')"
proof -
  let ?t0 = "\<lparr>tx_db = pool_db s, tx_stmt = 1, tx_fault = pool_fault s (pool_calls s)\<rparr>"
  have g: "good_chain (chain_of bs)" and dec: "pool_decoder s = Some (qi_decoder g)"
    using assms(1) by (simp_all add: pg_holds_def)
  have ne: "Apply u \<noteq> []" and roll: "set (rolled u) \<subseteq> set (chain_of bs)"
    using assms(2) by (auto simp: connects_def dest: in_set_takeD)
  have "pg_check u (tip_hash (chain_of bs)) = Inr ()"
    using pg_check_iff [OF g roll ne] assms(2) by simp
  then have "pg_check u (case t_meta_tip (tx_db ?t0) of None \<Rightarrow> [] | Some h \<Rightarrow> h) = Inr ()"
    using pg_holds_meta [OF assms(1)] by simp
  moreover have "no_fault ?t0" using assms(3) by (simp add: no_fault_def)
  ultimately obtain t' where "pg_update_tx (Some (qi_decoder g)) u ?t0 = Inr t'" "no_fault t'"
    using pg_update_tx_total [of ?t0 u g] assms(4) pg_holds_rollback_fits [OF assms(1)] assms(2)
    by (auto simp: connects_def)
  then have "BeginFunc (pool_fault s (pool_calls s)) (pg_update_tx (pool_decoder s) u) (pool_db s) = (None, tx_db t')"
    using assms(3) dec by (simp add: BeginFunc_def no_fault_def)
  with ne show ?thesis by (simp add: pg_ApplyUpdate_def)
qed

end
