(* ===== verification/Reads.thy ===== *)
theory Reads
  imports PostgresStore "HOL-Library.Product_Lexorder" "HOL-Library.List_Lexorder"
begin

text \<open>
  \<open>internal/store/read.go\<close>: the read side of the database store, the interface \<open>Reader\<close> of the
  API. A method runs one or several queries outside any transaction, so each of them may fail and
  each may see a different state of the tables, moved on by the writer in between: a method takes
  \<open>snap\<close>, which gives for its \<open>k\<close>-th query an \<open>answer\<close>: it is refused when issued, or it sees a database,
  or it sees one and the connection breaks after so many rows were read. A query with an argument
  that no \<open>BIGINT\<close> can hold is refused by the driver. A row order that the query leaves open is the
  order of the table.

  The lemmas say what the aggregates count (\<open>group_sum\<close>), that a page of the history is a
  window of the one sorted list (\<open>history_page\<close>), and what the tables show of a block just applied
  (\<open>created_rows_run\<close>, \<open>marked_run\<close>).
\<close>

datatype answer = Refuses err | Shows db | Breaks db nat err

type_synonym snapshots = "nat \<Rightarrow> answer"

text \<open>
  \<open>pool.Query\<close>: the rows that \<open>rows.Next\<close> yields and what \<open>rows.Err\<close> says after them.
  \<open>pool.QueryRow(..).Scan\<close> has only one place for an error.
\<close>

definition query :: "snapshots \<Rightarrow> nat \<Rightarrow> u64 list \<Rightarrow> (db \<Rightarrow> 'r list) \<Rightarrow> err + ('r list \<times> err option)" where
  "query snap k args f =
     bindE (bigint_args args)
       (\<lambda>_. case snap k of
          Refuses e \<Rightarrow> Inl e
        | Shows d \<Rightarrow> Inr (f d, None)
        | Breaks d n e \<Rightarrow> Inr (take n (f d), Some e))"

definition query_row :: "snapshots \<Rightarrow> nat \<Rightarrow> (db \<Rightarrow> 'a) \<Rightarrow> err + 'a" where
  "query_row snap k f =
     (case snap k of Refuses e \<Rightarrow> Inl e | Shows d \<Rightarrow> Inr (f d) | Breaks d n e \<Rightarrow> Inl e)"

definition rows_Err :: "err option \<Rightarrow> 'a \<Rightarrow> err + 'a" where
  "rows_Err r x = (case r of None \<Rightarrow> Inr x | Some e \<Rightarrow> Inl e)"

lemma query_Shows [simp]:
  "snap k = Shows d \<Longrightarrow> list_all bigint_fits args \<Longrightarrow> query snap k args f = Inr (f d, None)"
  by (simp add: query_def bigint_args_def)

lemma query_row_Shows [simp]: "snap k = Shows d \<Longrightarrow> query_row snap k f = Inr (f d)"
  by (simp add: query_row_def)

lemma query_row_Inr: "query_row snap k f = Inr x \<longleftrightarrow> (\<exists>d. snap k = Shows d \<and> x = f d)"
  by (auto simp: query_row_def split: answer.splits)

lemma rows_Err_simps [simp]: "rows_Err None x = Inr x" "rows_Err r x = Inr y \<longleftrightarrow> r = None \<and> x = y"
  by (auto simp: rows_Err_def split: option.splits)

section \<open>Results\<close>

record UTXO =
  u_TxHash :: bytes
  u_TxIndex :: i32
  u_Address :: bytes
  u_Denomination :: u8
  u_LockHeight :: u64
  u_Source :: nat
  u_CreatedBlock :: u64
  u_SpentBlock :: "u64 option"
  u_SpentTx :: "bytes option"
  u_TrimDeadline :: "u64 option"
  u_TrimmedBlock :: "u64 option"

definition scan_row :: "utxo \<Rightarrow> UTXO" where
  "scan_row r =
     \<lparr>u_TxHash = tx_hash r, u_TxIndex = tx_index r, u_Address = address r,
      u_Denomination = denomination r, u_LockHeight = lock_height r, u_Source = source r,
      u_CreatedBlock = created_block r, u_SpentBlock = spent_block r, u_SpentTx = spent_tx r,
      u_TrimDeadline = trim_deadline r, u_TrimmedBlock = trimmed_block r\<rparr>"

definition scan_rows :: "utxo list \<Rightarrow> UTXO list" where
  "scan_rows rows = map scan_row rows"

definition scanUTXOs :: "utxo list \<times> err option \<Rightarrow> err + UTXO list" where
  "scanUTXOs rows = (case rows of (rs, e) \<Rightarrow> rows_Err e (scan_rows rs))"

lemma scanUTXOs_simps [simp]:
  "scanUTXOs (rs, None) = Inr (scan_rows rs)"
  "scanUTXOs p = Inr us \<longleftrightarrow> snd p = None \<and> us = scan_rows (fst p)"
  by (auto simp: scanUTXOs_def split: prod.splits)

definition UTXO_State :: "UTXO \<Rightarrow> string" where
  "UTXO_State u =
     (if u_TrimmedBlock u \<noteq> None then ''trimmed''
      else if u_SpentBlock u \<noteq> None then ''spent'' else ''unspent'')"

text \<open>\<open>new(big.Int).Set(nil)\<close> and \<open>Mul\<close> with nil panic: a denomination the protocol does not know.\<close>

definition NilDeref :: err where
  "NilDeref = Panic ''invalid memory address or nil pointer dereference''"

definition value_of :: "goquai \<Rightarrow> u8 \<Rightarrow> err + int" where
  "value_of g d = (case DenominationValue g d of None \<Rightarrow> Inl NilDeref | Some v \<Rightarrow> Inr v)"

definition UTXO_Value :: "goquai \<Rightarrow> UTXO \<Rightarrow> err + int" where
  "UTXO_Value g u = value_of g (u_Denomination u)"

record cursor =
  c_Block :: u64
  c_TxHash :: bytes
  c_TxIndex :: i32

record balance =
  Spendable :: int
  Locked :: int
  Trimmed :: int
  n_Spendable :: nat
  n_Locked :: nat
  n_Trimmed :: nat

record block_utxo_events =
  ev_Created :: "UTXO list"
  ev_Spent :: "UTXO list"
  ev_Trimmed :: "UTXO list"

record stats =
  s_TipHeight :: u64
  s_IndexedFrom :: u64
  s_IndexedTo :: u64
  s_TotalUTXOs :: nat
  s_UnspentCount :: nat
  s_SpentCount :: nat
  s_TrimmedCount :: nat
  s_TotalValue :: int

record tx_utxos =
  tx_Created :: "UTXO list"
  tx_Spent :: "UTXO list"

definition HexAddr :: "bytes \<Rightarrow> string" where "HexAddr b = ''0x'' @ hex_EncodeToString b"
definition HexHash :: "bytes \<Rightarrow> string" where "HexHash b = ''0x'' @ hex_EncodeToString b"

section \<open>Queries\<close>

definition GetUTXO :: "snapshots \<Rightarrow> bytes \<Rightarrow> i32 \<Rightarrow> err + UTXO option" where
  "GetUTXO snap txHash index =
     query_row snap 0 (\<lambda>d. map_option scan_row
       (find (\<lambda>r. tx_hash r = txHash \<and> tx_index r = index) (t_utxos d)))"

definition live_at :: "bytes \<Rightarrow> db \<Rightarrow> utxo list" where
  "live_at addr d = filter (\<lambda>r. address r = addr \<and> row_unspent r) (t_utxos d)"

definition GetAddressUTXOs :: "snapshots \<Rightarrow> bytes \<Rightarrow> err + UTXO list" where
  "GetAddressUTXOs snap addr =
     bindE (query snap 0 [] (\<lambda>d. sort_key (\<lambda>r. - int (unat (created_block r))) (live_at addr d)))
       scanUTXOs"

text \<open>\<open>GROUP BY\<close> with \<open>COUNT(*)\<close>: one pair of key and count per key that occurs.\<close>

definition group_count :: "('r \<Rightarrow> 'k) \<Rightarrow> 'r list \<Rightarrow> ('k \<times> nat) list" where
  "group_count key rows =
     map (\<lambda>k. (k, length (filter (\<lambda>r. key r = k) rows))) (remdups (map key rows))"

definition add_unspent :: "goquai \<Rightarrow> u64 \<Rightarrow> (u8 \<times> u64) \<times> nat \<Rightarrow> balance \<Rightarrow> err + balance" where
  "add_unspent g tipHeight grp s =
     (case grp of ((denom, lockH), cnt) \<Rightarrow>
        bindE (value_of g denom)
          (\<lambda>v. let val = v * int cnt in
             if lockH = 0 \<or> lockH \<le> tipHeight
             then Inr (s\<lparr>Spendable := Spendable s + val, n_Spendable := n_Spendable s + cnt\<rparr>)
             else Inr (s\<lparr>Locked := Locked s + val, n_Locked := n_Locked s + cnt\<rparr>)))"

definition add_trimmed :: "goquai \<Rightarrow> u8 \<times> nat \<Rightarrow> balance \<Rightarrow> err + balance" where
  "add_trimmed g grp s =
     (case grp of (denom, cnt) \<Rightarrow>
        bindE (value_of g denom)
          (\<lambda>v. Inr (s\<lparr>Trimmed := Trimmed s + v * int cnt, n_Trimmed := n_Trimmed s + cnt\<rparr>)))"

definition zero_balance :: balance where
  "zero_balance = \<lparr>Spendable = 0, Locked = 0, Trimmed = 0, n_Spendable = 0, n_Locked = 0, n_Trimmed = 0\<rparr>"

definition trimmed_at :: "bytes \<Rightarrow> db \<Rightarrow> utxo list" where
  "trimmed_at addr d = filter (\<lambda>r. address r = addr \<and> trimmed_block r \<noteq> None) (t_utxos d)"

definition GetAddressBalance :: "goquai \<Rightarrow> snapshots \<Rightarrow> bytes \<Rightarrow> u64 \<Rightarrow> err + balance" where
  "GetAddressBalance g snap addr tipHeight =
     bindE (query snap 0 [] (\<lambda>d. group_count (\<lambda>r. (denomination r, lock_height r)) (live_at addr d)))
       (\<lambda>(rows, e). bindE (foldE (add_unspent g tipHeight) rows zero_balance)
          (\<lambda>s. bindE (rows_Err e s)
             (\<lambda>s. bindE (query snap 1 [] (\<lambda>d. group_count denomination (trimmed_at addr d)))
                (\<lambda>(trows, e'). bindE (foldE (add_trimmed g) trows s) (rows_Err e')))))"

definition hist_key :: "utxo \<Rightarrow> u64 \<times> bytes \<times> int" where
  "hist_key r = (created_block r, tx_hash r, sint (tx_index r))"

definition before_cursor :: "cursor \<Rightarrow> utxo \<Rightarrow> bool" where
  "before_cursor c r \<longleftrightarrow>
     created_block r < c_Block c \<or>
     (created_block r = c_Block c \<and> tx_hash r < c_TxHash c) \<or>
     (created_block r = c_Block c \<and> tx_hash r = c_TxHash c \<and> sint (tx_index r) < sint (c_TxIndex c))"

definition history_limit :: "int \<Rightarrow> nat" where
  "history_limit limit = (if limit \<le> 0 \<or> limit > 200 then 50 else nat limit)"

definition GetAddressHistory :: "snapshots \<Rightarrow> bytes \<Rightarrow> cursor option \<Rightarrow> int \<Rightarrow> err + UTXO list" where
  "GetAddressHistory snap addr before limit =
     bindE (query snap 0 (case before of None \<Rightarrow> [] | Some c \<Rightarrow> [c_Block c])
              (\<lambda>d. take (history_limit limit) (rev (sort_key hist_key
                 (filter (\<lambda>r. address r = addr \<and> (case before of None \<Rightarrow> True | Some c \<Rightarrow> before_cursor c r))
                    (t_utxos d))))))
       scanUTXOs"

definition GetBlockUTXOEvents :: "snapshots \<Rightarrow> u64 \<Rightarrow> err + block_utxo_events" where
  "GetBlockUTXOEvents snap height =
     bindE (bindE (wrapE ''block utxo created''
              (query snap 0 [height] (\<lambda>d. filter (\<lambda>r. created_block r = height) (t_utxos d)))) scanUTXOs)
       (\<lambda>created. bindE (bindE (wrapE ''block utxo spent''
              (query snap 1 [height] (\<lambda>d. filter (\<lambda>r. spent_block r = Some height) (t_utxos d)))) scanUTXOs)
          (\<lambda>spent. bindE (bindE (wrapE ''block utxo trimmed''
              (query snap 2 [height] (\<lambda>d. filter (\<lambda>r. trimmed_block r = Some height) (t_utxos d)))) scanUTXOs)
             (\<lambda>trimmed. Inr \<lparr>ev_Created = created, ev_Spent = spent, ev_Trimmed = trimmed\<rparr>)))"

definition count_rows :: "(utxo \<Rightarrow> bool) \<Rightarrow> db \<Rightarrow> nat" where
  "count_rows p d = length (filter p (t_utxos d))"

definition add_value :: "goquai \<Rightarrow> u8 \<times> nat \<Rightarrow> stats \<Rightarrow> err + stats" where
  "add_value g grp s =
     (case grp of (denom, cnt) \<Rightarrow>
        bindE (value_of g denom) (\<lambda>v. Inr (s\<lparr>s_TotalValue := s_TotalValue s + v * int cnt\<rparr>)))"

definition stats_counts :: "db \<Rightarrow> stats" where
  "stats_counts d =
     \<lparr>s_TipHeight = 0,
      s_IndexedFrom = (if t_utxos d = [] then 0 else Min (set (map created_block (t_utxos d)))),
      s_IndexedTo = (if t_utxos d = [] then 0 else Max (set (map created_block (t_utxos d)))),
      s_TotalUTXOs = count_rows (\<lambda>_. True) d,
      s_UnspentCount = count_rows row_unspent d,
      s_SpentCount = count_rows (\<lambda>r. spent_block r \<noteq> None) d,
      s_TrimmedCount = count_rows (\<lambda>r. trimmed_block r \<noteq> None) d,
      s_TotalValue = 0\<rparr>"

definition GetStats :: "goquai \<Rightarrow> snapshots \<Rightarrow> err + stats" where
  "GetStats g snap =
     bindE (query_row snap 0 stats_counts)
       (\<lambda>s. bindE (query snap 1 [] (\<lambda>d. group_count denomination (filter row_unspent (t_utxos d))))
          (\<lambda>(rows, e). bindE (bindE (foldE (add_value g) rows s) (rows_Err e))
             (\<lambda>s1. bindE (query_row snap 2 tip_row)
                (\<lambda>tip. Inr (case tip of None \<Rightarrow> s1 | Some r \<Rightarrow> s1\<lparr>s_TipHeight := br_height r\<rparr>)))))"

definition GetTx :: "snapshots \<Rightarrow> bytes \<Rightarrow> err + (tx_utxos \<times> bool)" where
  "GetTx snap txHash =
     bindE (bindE (query snap 0 [] (\<lambda>d. filter (\<lambda>r. tx_hash r = txHash) (t_utxos d))) scanUTXOs)
       (\<lambda>created. bindE (bindE (query snap 1 [] (\<lambda>d. filter (\<lambda>r. spent_tx r = Some txHash) (t_utxos d))) scanUTXOs)
          (\<lambda>spent. Inr (\<lparr>tx_Created = created, tx_Spent = spent\<rparr>, \<not> (created = [] \<and> spent = []))))"

definition add_outpoint :: "UTXO \<Rightarrow> (string \<rightharpoonup> UTXO list) \<Rightarrow> string \<rightharpoonup> UTXO list" where
  "add_outpoint u result =
     (let key = HexAddr (u_Address u) in
      result(key \<mapsto> (case result key of None \<Rightarrow> [] | Some us \<Rightarrow> us) @ [u]))"

definition GetOutpointsByAddresses :: "snapshots \<Rightarrow> bytes list \<Rightarrow> err + (string \<rightharpoonup> UTXO list)" where
  "GetOutpointsByAddresses snap addrs =
     (let result = fold (\<lambda>a m. m(HexAddr a \<mapsto> [])) addrs Map.empty in
      bindE (bindE (query snap 0 []
                (\<lambda>d. filter (\<lambda>r. address r \<in> set addrs \<and> row_unspent r) (t_utxos d))) scanUTXOs)
        (\<lambda>utxos. Inr (fold add_outpoint utxos result)))"

section \<open>Aggregates\<close>

lemma group_sum_aux:
  fixes f :: "'k \<Rightarrow> 'a :: comm_semiring_1"
  assumes "distinct ks" "set (map key rows) \<subseteq> set ks"
  shows "(\<Sum>k \<leftarrow> ks. f k * of_nat (length (filter (\<lambda>r. key r = k) rows))) = (\<Sum>r \<leftarrow> rows. f (key r))"
  using assms(2)
proof (induction rows)
  case (Cons r rows)
  have one: "(\<Sum>k \<leftarrow> ks. f k * (if key r = k then 1 else 0)) = f (key r)"
    using Cons.prems assms(1) by (simp add: sum_list_distinct_conv_sum_set if_distrib cong: if_cong)
  have "(\<Sum>k \<leftarrow> ks. f k * of_nat (length (filter (\<lambda>r'. key r' = k) (r # rows)))) =
    (\<Sum>k \<leftarrow> ks. f k * of_nat (length (filter (\<lambda>r'. key r' = k) rows)) + f k * (if key r = k then 1 else 0))"
    by (intro arg_cong [where f = sum_list] map_cong) (auto simp: algebra_simps)
  also have "\<dots> = (\<Sum>k \<leftarrow> ks. f k * of_nat (length (filter (\<lambda>r'. key r' = k) rows))) + f (key r)"
    by (simp only: sum_list_addf one)
  finally show ?case using Cons by (simp add: add.commute)
qed simp

lemma group_sum:
  fixes f :: "'k \<Rightarrow> 'a :: comm_semiring_1"
  shows "(\<Sum>(k, n) \<leftarrow> group_count key rows. f k * of_nat n) = (\<Sum>r \<leftarrow> rows. f (key r))"
  using group_sum_aux [of "remdups (map key rows)" key rows f]
  by (simp add: group_count_def comp_def)

lemma group_counts:
  "(\<Sum>(k, n) \<leftarrow> group_count key rows. (if P k then 1 else 0) * n) = length (filter (\<lambda>r. P (key r)) rows)"
  "(\<Sum>(k, n) \<leftarrow> group_count key rows. (if P k then 0 else 1) * n) = length (filter (\<lambda>r. \<not> P (key r)) rows)"
  "(\<Sum>(k, n) \<leftarrow> group_count key rows. n) = length rows"
proof -
  have c: "(\<Sum>r \<leftarrow> rows. if Q r then 1 else 0 :: nat) = length (filter Q rows)" for Q
    by (induction rows) auto
  have c': "(\<Sum>r \<leftarrow> rows. if Q r then 0 else 1 :: nat) = length (filter (\<lambda>r. \<not> Q r) rows)" for Q
    by (induction rows) auto
  show "(\<Sum>(k, n) \<leftarrow> group_count key rows. (if P k then 1 else 0) * n) = length (filter (\<lambda>r. P (key r)) rows)"
    using group_sum [of "\<lambda>k. if P k then 1 else (0 :: nat)" key rows] by (simp add: c)
  show "(\<Sum>(k, n) \<leftarrow> group_count key rows. (if P k then 0 else 1) * n) = length (filter (\<lambda>r. \<not> P (key r)) rows)"
    using group_sum [of "\<lambda>k. if P k then 0 else (1 :: nat)" key rows] by (simp add: c')
  show "(\<Sum>(k, n) \<leftarrow> group_count key rows. n) = length rows"
    using group_sum [of "\<lambda>k. (1 :: nat)" key rows] by (simp add: sum_list_replicate map_replicate_const)
qed

text \<open>The three loops that add up the groups, in closed form.\<close>

definition denom_value :: "goquai \<Rightarrow> u8 \<Rightarrow> int" where
  "denom_value g dn = (case DenominationValue g dn of None \<Rightarrow> 0 | Some v \<Rightarrow> v)"

lemma value_of_known: "DenominationValue g dn \<noteq> None \<Longrightarrow> value_of g dn = Inr (denom_value g dn)"
  by (auto simp: value_of_def denom_value_def)

definition spendable_at :: "u64 \<Rightarrow> u64 \<Rightarrow> bool" where
  "spendable_at tipHeight lockH \<longleftrightarrow> lockH = 0 \<or> lockH \<le> tipHeight"

lemma add_unspent_loop:
  "\<forall>grp \<in> set rows. DenominationValue g (fst (fst grp)) \<noteq> None \<Longrightarrow>
   foldE (add_unspent g tip) rows s =
     Inr (s\<lparr>Spendable := Spendable s +
              (\<Sum>(k, n) \<leftarrow> rows. (if spendable_at tip (snd k) then denom_value g (fst k) else 0) * of_nat n),
            Locked := Locked s +
              (\<Sum>(k, n) \<leftarrow> rows. (if spendable_at tip (snd k) then 0 else denom_value g (fst k)) * of_nat n),
            n_Spendable := n_Spendable s + (\<Sum>(k, n) \<leftarrow> rows. (if spendable_at tip (snd k) then 1 else 0) * of_nat n),
            n_Locked := n_Locked s + (\<Sum>(k, n) \<leftarrow> rows. (if spendable_at tip (snd k) then 0 else 1) * of_nat n)\<rparr>)"
  by (induction rows arbitrary: s)
    (auto simp: add_unspent_def value_of_known spendable_at_def Let_def)

lemma add_trimmed_loop:
  "\<forall>grp \<in> set rows. DenominationValue g (fst grp) \<noteq> None \<Longrightarrow>
   foldE (add_trimmed g) rows s =
     Inr (s\<lparr>Trimmed := Trimmed s + (\<Sum>(k, n) \<leftarrow> rows. denom_value g k * of_nat n),
            n_Trimmed := n_Trimmed s + (\<Sum>(k, n) \<leftarrow> rows. 1 * of_nat n)\<rparr>)"
  by (induction rows arbitrary: s) (auto simp: add_trimmed_def value_of_known)

lemma add_value_loop:
  "\<forall>grp \<in> set rows. DenominationValue g (fst grp) \<noteq> None \<Longrightarrow>
   foldE (add_value g) rows s =
     Inr (s\<lparr>s_TotalValue := s_TotalValue s + (\<Sum>(k, n) \<leftarrow> rows. denom_value g k * of_nat n)\<rparr>)"
  by (induction rows arbitrary: s) (auto simp: add_value_def value_of_known)

lemma group_count_mem: "grp \<in> set (group_count key rows) \<Longrightarrow> \<exists>r \<in> set rows. fst grp = key r"
  by (auto simp: group_count_def)

text \<open>Every denomination in the table is one the protocol knows.\<close>

definition denoms_known :: "goquai \<Rightarrow> db \<Rightarrow> bool" where
  "denoms_known g d \<longleftrightarrow> (\<forall>r \<in> set (t_utxos d). DenominationValue g (denomination r) \<noteq> None)"

abbreviation row_value :: "goquai \<Rightarrow> utxo \<Rightarrow> int" where
  "row_value g r \<equiv> denom_value g (denomination r)"

lemma sum_filter_if:
  "(\<Sum>r \<leftarrow> rows. if P r then f r else (0::int)) = (\<Sum>r \<leftarrow> filter P rows. f r)"
  "(\<Sum>r \<leftarrow> rows. if P r then (0::int) else f r) = (\<Sum>r \<leftarrow> filter (\<lambda>r. \<not> P r) rows. f r)"
  by (induction rows) auto

lemma balance_closed_form:
  assumes "snap 0 = Shows d0" "snap 1 = Shows d1" "denoms_known g d0" "denoms_known g d1"
  shows "GetAddressBalance g snap addr tip = Inr
    \<lparr>Spendable = (\<Sum>r \<leftarrow> filter (\<lambda>r. spendable_at tip (lock_height r)) (live_at addr d0). row_value g r),
     Locked = (\<Sum>r \<leftarrow> filter (\<lambda>r. \<not> spendable_at tip (lock_height r)) (live_at addr d0). row_value g r),
     Trimmed = (\<Sum>r \<leftarrow> trimmed_at addr d1. row_value g r),
     n_Spendable = length (filter (\<lambda>r. spendable_at tip (lock_height r)) (live_at addr d0)),
     n_Locked = length (filter (\<lambda>r. \<not> spendable_at tip (lock_height r)) (live_at addr d0)),
     n_Trimmed = length (trimmed_at addr d1)\<rparr>"
proof -
  let ?key = "\<lambda>r. (denomination r, lock_height r)"
  have k0: "\<forall>grp \<in> set (group_count ?key (live_at addr d0)). DenominationValue g (fst (fst grp)) \<noteq> None"
    using assms(3) by (auto simp: denoms_known_def live_at_def dest: group_count_mem)
  have k1: "\<forall>grp \<in> set (group_count denomination (trimmed_at addr d1)). DenominationValue g (fst grp) \<noteq> None"
    using assms(4) by (auto simp: denoms_known_def trimmed_at_def dest: group_count_mem)
  show ?thesis
    using assms(1,2)
    by (simp add: GetAddressBalance_def add_unspent_loop [OF k0] add_trimmed_loop [OF k1]
        group_sum [where key = ?key] group_sum [where key = denomination] group_counts(1,2) [where key = ?key]
        group_counts(3) [where key = denomination] zero_balance_def sum_filter_if)
qed

section \<open>Pages of the history\<close>

text \<open>The whole history of an address, newest first, and the cursor of a row.\<close>

definition history_list :: "bytes \<Rightarrow> db \<Rightarrow> utxo list" where
  "history_list addr d = rev (sort_key hist_key (filter (\<lambda>r. address r = addr) (t_utxos d)))"

definition cursor_of :: "UTXO \<Rightarrow> cursor" where
  "cursor_of u = \<lparr>c_Block = u_CreatedBlock u, c_TxHash = u_TxHash u, c_TxIndex = u_TxIndex u\<rparr>"

lemma before_cursor_key: "before_cursor (cursor_of (scan_row r)) r' \<longleftrightarrow> hist_key r' < hist_key r"
  by (auto simp: before_cursor_def hist_key_def cursor_of_def scan_row_def)

lemma hist_key_inj: "hist_key r = hist_key r' \<longleftrightarrow> utxo_key r = utxo_key r'"
  by (auto simp: hist_key_def utxo_key_def signed_word_eqI)

lemma distinct_hist_keys: "distinct (map utxo_key rows) \<Longrightarrow> distinct (map hist_key rows)"
  by (induction rows) (auto simp: image_iff hist_key_inj)

lemma sorted_wrt_less_rev:
  fixes k :: "'r \<Rightarrow> 'k :: linorder"
  assumes "distinct (map k rows)"
  shows "sorted_wrt (\<lambda>a b. k b < k a) (rev (sort_key k rows))"
proof -
  have "sorted (map k (sort_key k rows))" by simp
  moreover have "distinct (map k (sort_key k rows))"
    using assms by (simp add: distinct_map)
  ultimately have "sorted_wrt (<) (map k (sort_key k rows))" by (simp add: strict_sorted_iff)
  then show ?thesis by (simp add: sorted_wrt_map sorted_wrt_rev)
qed

lemma filter_below_nth:
  fixes k :: "'r \<Rightarrow> 'k :: linorder"
  assumes "sorted_wrt (\<lambda>a b. k b < k a) ys" "i < length ys"
  shows "filter (\<lambda>r. k r < k (ys ! i)) ys = drop (Suc i) ys"
  using assms
proof (induction ys arbitrary: i)
  case (Cons y ys)
  show ?case
  proof (cases i)
    case 0
    with Cons.prems show ?thesis by simp
  next
    case (Suc j)
    with Cons.prems have "k (ys ! j) < k y" by simp
    then have "\<not> k y < k (ys ! j)" by simp
    with Cons.IH [of j] Cons.prems Suc show ?thesis by simp
  qed
qed simp

lemma history_fits:
  assumes "db_ok d" "i < length (history_list addr d)"
  shows "bigint_fits (c_Block (cursor_of (scan_row (history_list addr d ! i))))"
proof -
  have "history_list addr d ! i \<in> set (t_utxos d)"
    using nth_mem [OF assms(2)] by (simp add: history_list_def)
  with assms(1) have "list_all bigint_fits (utxo_args (history_list addr d ! i))"
    by (auto simp: db_ok_def row_ok_def)
  then show ?thesis by (simp add: utxo_args_def cursor_of_def scan_row_def)
qed

lemma history_page:
  assumes "snap 0 = Shows d" "db_ok d" "i < length (history_list addr d)"
  shows "GetAddressHistory snap addr (Some (cursor_of (scan_row (history_list addr d ! i)))) limit =
    Inr (scan_rows (take (history_limit limit) (drop (Suc i) (history_list addr d))))"
proof -
  let ?rows = "filter (\<lambda>r. address r = addr) (t_utxos d)"
  let ?L = "history_list addr d"
  have "distinct (map utxo_key ?rows)" using assms(2) by (simp add: db_ok_def distinct_map_filter)
  then have s: "sorted_wrt (\<lambda>a b. hist_key b < hist_key a) ?L"
    unfolding history_list_def by (intro sorted_wrt_less_rev distinct_hist_keys)
  let ?p = "\<lambda>r. hist_key r < hist_key (?L ! i)"
  have "rev (sort_key hist_key (filter (\<lambda>r. address r = addr \<and> ?p r) (t_utxos d))) = filter ?p ?L"
    by (simp add: history_list_def filter_sort [symmetric] rev_filter [symmetric] filter_filter conj_commute)
  also have "\<dots> = drop (Suc i) ?L" by (rule filter_below_nth [OF s assms(3)])
  finally show ?thesis
    using assms(1) history_fits [OF assms(2,3)] by (simp add: GetAddressHistory_def before_cursor_key)
qed

lemma history_first_page:
  "snap 0 = Shows d \<Longrightarrow>
   GetAddressHistory snap addr None limit =
     Inr (scan_rows (take (history_limit limit) (history_list addr d)))"
  by (simp add: GetAddressHistory_def history_list_def)

section \<open>Outpoints by address\<close>

lemma HexAddr_inj: "HexAddr a = HexAddr b \<longleftrightarrow> a = b"
  by (simp add: HexAddr_def hex_Encode_inj)

lemma init_result:
  "fold (\<lambda>a m. m(HexAddr a \<mapsto> [])) addrs m k =
   (if k \<in> HexAddr ` set addrs then Some [] else m k)"
  by (induction addrs arbitrary: m) auto

lemma add_outpoints:
  "fold add_outpoint us m k =
   (let mine = filter (\<lambda>u. HexAddr (u_Address u) = k) us in
    case m k of
      None \<Rightarrow> if mine = [] then None else Some mine
    | Some ys \<Rightarrow> Some (ys @ mine))"
  by (induction us arbitrary: m) (auto simp: add_outpoint_def Let_def split: option.splits)

lemma outpoints_closed_form:
  assumes "GetOutpointsByAddresses snap addrs = Inr res" "snap 0 = Shows d"
  shows "res (HexAddr a) = (if a \<in> set addrs then Some (scan_rows (live_at a d)) else None)"
    and "k \<notin> HexAddr ` set addrs \<Longrightarrow> res k = None"
proof -
  let ?rows = "filter (\<lambda>r. address r \<in> set addrs \<and> row_unspent r) (t_utxos d)"
  have res: "res = fold add_outpoint (scan_rows ?rows) (fold (\<lambda>a m. m(HexAddr a \<mapsto> [])) addrs Map.empty)"
    using assms by (simp add: GetOutpointsByAddresses_def  Let_def)
  have mine: "filter (\<lambda>u. u_Address u = b) (scan_rows ?rows) =
      (if b \<in> set addrs then scan_rows (live_at b d) else [])" for b
    by (auto simp: scan_rows_def filter_map comp_def scan_row_def HexAddr_inj live_at_def filter_filter
        filter_empty_conv
        intro!: arg_cong [where f = "map scan_row"] filter_cong)
  show "res (HexAddr a) = (if a \<in> set addrs then Some (scan_rows (live_at a d)) else None)"
    by (auto simp: res add_outpoints init_result mine HexAddr_inj Let_def image_iff)
  show "res k = None" if "k \<notin> HexAddr ` set addrs"
  proof -
    have "filter (\<lambda>u. HexAddr (u_Address u) = k) (scan_rows ?rows) = []"
      using that by (auto simp: scan_rows_def filter_empty_conv scan_row_def)
    with that show ?thesis by (simp add: res add_outpoints init_result Let_def)
  qed
qed

section \<open>Counts\<close>

lemma stats_partition:
  assumes "db_ok d"
  shows "count_rows row_unspent d + count_rows (\<lambda>r. spent_block r \<noteq> None) d +
    count_rows (\<lambda>r. trimmed_block r \<noteq> None) d = count_rows (\<lambda>_. True) d"
proof -
  have "length (filter row_unspent rs) + length (filter (\<lambda>r. spent_block r \<noteq> None) rs) +
      length (filter (\<lambda>r. trimmed_block r \<noteq> None) rs) = length rs"
    if "\<forall>r \<in> set rs. row_ok r" for rs
    using that by (induction rs) (auto simp: row_ok_def row_unspent_def)
  with assms show ?thesis by (simp add: count_rows_def db_ok_def)
qed

section \<open>The events of a block\<close>

text \<open>
  What the ledger's rules say a list of events marks, starting from the set \<open>L\<close> of unspent rows: a
  spend marks the rows of its outpoint that are unspent when it happens, the sweep the unlocked rows
  at their deadline that are unspent then.
\<close>

fun spent_rows :: "u64 \<Rightarrow> event list \<Rightarrow> utxo set \<Rightarrow> utxo set" where
  "spent_rows h [] L = {}"
| "spent_rows h (ev # evs) L =
     (case ev of
        Spend txHash pubkey prevHash idx \<Rightarrow>
          (\<lambda>r. r\<lparr>spent_block := Some h, spent_tx := Some txHash, spender_pubkey := pubkey\<rparr>) `
            {r \<in> L. tx_hash r = prevHash \<and> tx_index r = idx}
      | _ \<Rightarrow> {}) \<union> spent_rows h evs (ledger_event h ev L)"

fun trimmed_rows :: "u64 \<Rightarrow> event list \<Rightarrow> utxo set \<Rightarrow> utxo set" where
  "trimmed_rows h [] L = {}"
| "trimmed_rows h (ev # evs) L =
     (case ev of
        Sweep \<Rightarrow> (\<lambda>r. r\<lparr>trimmed_block := Some h\<rparr>) ` {r \<in> L. trim_deadline r = Some h \<and> lock_height r = 0}
      | _ \<Rightarrow> {}) \<union> trimmed_rows h evs (ledger_event h ev L)"

text \<open>A row without its marks, and a reported output without them.\<close>

definition row_base :: "utxo \<Rightarrow> utxo" where
  "row_base r = r\<lparr>spent_block := None, spent_tx := None, spender_pubkey := None, trimmed_block := None\<rparr>"

definition unmarked :: "UTXO \<Rightarrow> UTXO" where
  "unmarked u = u\<lparr>u_SpentBlock := None, u_SpentTx := None, u_TrimmedBlock := None\<rparr>"

lemma row_base_simps [simp]:
  "row_base (r\<lparr>spent_block := x, spent_tx := y, spender_pubkey := z\<rparr>) = row_base r"
  "row_base (r\<lparr>trimmed_block := x\<rparr>) = row_base r"
  "created_block (row_base r) = created_block r"
  "scan_row (row_base r) = unmarked (scan_row r)"
  by (simp_all add: row_base_def unmarked_def scan_row_def)

lemma row_base_created: "event_at h (Create r) \<Longrightarrow> row_base r = r"
  by (cases r) (simp add: row_base_def event_at_def)

lemma row_base_created_all: "\<forall>ev \<in> set evs. event_at h ev \<Longrightarrow> map row_base (created evs) = created evs"
  by (induction evs) (auto simp: row_base_created split: event.splits)

lemma created_rows_run:
  "distinct (map utxo_key (created evs)) \<Longrightarrow>
   utxo_key ` set (created evs) \<inter> utxo_key ` set (t_utxos d) = {} \<Longrightarrow>
   map row_base (t_utxos (run_events h evs d)) = map row_base (t_utxos d) @ map row_base (created evs)"
proof (induction evs arbitrary: d)
  case (Cons ev evs)
  have "map row_base (t_utxos (apply_event h ev d)) =
      map row_base (t_utxos d) @ map row_base (case ev of Create r \<Rightarrow> [r] | _ \<Rightarrow> [])"
  proof (cases ev)
    case (Create r)
    with Cons.prems show ?thesis by (auto simp: stmt_insert_utxo_def ins_nc_def)
  qed (simp_all add: stmt_mark_spent_def stmt_sweep_def stmt_insert_conv_def map_key_upd_where)
  moreover have "map row_base (t_utxos (run_events h evs (apply_event h ev d))) =
      map row_base (t_utxos (apply_event h ev d)) @ map row_base (created evs)"
    using Cons.prems by (intro Cons.IH) (auto simp: utxo_keys_apply_event split: event.splits)
  ultimately show ?case by simp
qed simp

text \<open>The rows that carry the marks of height \<open>h\<close> after one event, and after a list of events.\<close>

definition spent_at :: "u64 \<Rightarrow> db \<Rightarrow> utxo set" where
  "spent_at h d = {r \<in> set (t_utxos d). spent_block r = Some h}"

definition trimmed_at_height :: "u64 \<Rightarrow> db \<Rightarrow> utxo set" where
  "trimmed_at_height h d = {r \<in> set (t_utxos d). trimmed_block r = Some h}"

lemma marked_upd_where:
  assumes "\<And>r. p r \<Longrightarrow> \<not> m r" "\<And>r. p r \<Longrightarrow> m (f r)"
  shows "{r \<in> set (upd_where p f rs). m r} = {r \<in> set rs. m r} \<union> f ` {r \<in> set rs. p r}"
  using assms unfolding set_upd_where by (auto split: if_splits)

lemma unmarked_upd_where:
  assumes "\<And>r. p r \<Longrightarrow> \<not> m r" "\<And>r. p r \<Longrightarrow> \<not> m (f r)"
  shows "{r \<in> set (upd_where p f rs). m r} = {r \<in> set rs. m r}"
  using assms unfolding set_upd_where by (auto split: if_splits)

lemma spent_at_event:
  assumes "event_at h ev"
  shows "spent_at h (apply_event h ev d) = spent_at h d \<union> spent_rows h [ev] (live d)"
proof (cases ev)
  case (Spend a pk q i)
  have hit: "{r \<in> live d. tx_hash r = q \<and> tx_index r = i} = {r \<in> set (t_utxos d). spend_hit q i r}"
    by (auto simp: live_def spend_hit_def)
  show ?thesis
    unfolding spent_at_def Spend apply_event.simps stmt_mark_spent_def fst_conv
    by (simp add: hit, rule marked_upd_where) (simp_all add: spend_hit_def row_unspent_def)
next
  case Sweep
  show ?thesis
    unfolding spent_at_def Sweep apply_event.simps stmt_sweep_def fst_conv
    by (simp, rule unmarked_upd_where) (simp_all add: trim_hit_def row_unspent_def)
next
  case (Create r)
  with assms show ?thesis by (auto simp: spent_at_def stmt_insert_utxo_def set_ins_nc event_at_def)
qed (simp add: spent_at_def stmt_insert_conv_def)

lemma trimmed_at_event:
  assumes "event_at h ev"
  shows "trimmed_at_height h (apply_event h ev d) = trimmed_at_height h d \<union> trimmed_rows h [ev] (live d)"
proof (cases ev)
  case (Spend a pk q i)
  show ?thesis
    unfolding trimmed_at_height_def Spend apply_event.simps stmt_mark_spent_def fst_conv
    by (simp, rule unmarked_upd_where) (simp_all add: spend_hit_def row_unspent_def)
next
  case Sweep
  have hit: "{r \<in> live d. trim_deadline r = Some h \<and> lock_height r = 0} = {r \<in> set (t_utxos d). trim_hit h r}"
    by (auto simp: live_def trim_hit_def)
  show ?thesis
    unfolding trimmed_at_height_def Sweep apply_event.simps stmt_sweep_def fst_conv
    by (simp add: hit, rule marked_upd_where) (simp_all add: trim_hit_def row_unspent_def)
next
  case (Create r)
  with assms show ?thesis by (auto simp: trimmed_at_height_def stmt_insert_utxo_def set_ins_nc event_at_def)
qed (simp add: trimmed_at_height_def stmt_insert_conv_def)

lemma marked_run:
  assumes "\<forall>ev \<in> set evs. event_at h ev" "distinct (map utxo_key (created evs))"
    "utxo_key ` set (created evs) \<inter> utxo_key ` set (t_utxos d) = {}"
  shows "spent_at h (run_events h evs d) = spent_at h d \<union> spent_rows h evs (live d) \<and>
    trimmed_at_height h (run_events h evs d) = trimmed_at_height h d \<union> trimmed_rows h evs (live d)"
  using assms
proof (induction evs arbitrary: d)
  case (Cons ev evs)
  have at: "event_at h ev" using Cons.prems(1) by simp
  have "live (apply_event h ev d) = ledger_event h ev (live d)"
    using Cons.prems by (intro live_apply_event) auto
  moreover have "spent_at h (run_events h evs (apply_event h ev d)) =
      spent_at h (apply_event h ev d) \<union> spent_rows h evs (live (apply_event h ev d)) \<and>
    trimmed_at_height h (run_events h evs (apply_event h ev d)) =
      trimmed_at_height h (apply_event h ev d) \<union> trimmed_rows h evs (live (apply_event h ev d))"
    using Cons.prems by (intro Cons.IH) (auto simp: utxo_keys_apply_event split: event.splits)
  ultimately show ?case using spent_at_event [OF at, of d] trimmed_at_event [OF at, of d] by auto
qed simp

lemma created_base_filter:
  "map row_base (filter (\<lambda>r. created_block r = h) rs) = filter (\<lambda>r. created_block r = h) (map row_base rs)"
  by (simp add: filter_map comp_def)

lemma distinct_scan_rows: "distinct (map utxo_key rows) \<Longrightarrow> distinct (scan_rows (filter p rows))"
proof -
  have "inj_on scan_row (set (filter p rows))" if d: "distinct (map utxo_key rows)"
    using d by (auto simp: inj_on_def distinct_map scan_row_def utxo_key_def)
  moreover assume "distinct (map utxo_key rows)"
  ultimately show ?thesis by (simp add: scan_rows_def distinct_map)
qed

section \<open>Concrete tables\<close>

lemma ex_db1_rows:
  "t_utxos ex_db1 = [ex_row 0xA1 0 1 1 SourceCoinbaseETX 1, ex_row 0xA1 1 0 1 SourceCoinbaseETX 1,
     ex_row 0xA1 2 0 1 SourceCoinbaseETX 1]"
  by (simp add: ex_db1_def run_events_def ex_events1_def stmt_insert_utxo_def stmt_sweep_def
      ins_nc_def empty_db_def utxo_key_def ex_row_def new_utxo_def upd_where_def trim_hit_def
      TrimDeadline_def ex_goquai_def)

lemma ex_db1_known: "denoms_known ex_goquai ex_db1"
  by (simp add: denoms_known_def ex_db1_rows ex_row_def new_utxo_def DenominationValue_def ex_goquai_def
      word_le_nat_alt)

section \<open>Properties\<close>

text \<open>
  C11: A balance adds up. If the protocol knows every denomination in the table, the balance of an
  address is, in each part, the sum over its rows: the unspent ones without a lock above the tip
  are spendable, the other unspent ones locked, the trimmed ones trimmed; nothing unspent is left
  out or counted twice.
\<close>

theorem GetAddressBalance_sums:
  assumes "snap 0 = Shows d" "snap 1 = Shows d" "denoms_known g d"
  shows "\<exists>b. GetAddressBalance g snap addr tip = Inr b \<and>
    Spendable b = (\<Sum>r \<leftarrow> filter (\<lambda>r. spendable_at tip (lock_height r)) (live_at addr d). row_value g r) \<and>
    Spendable b + Locked b = (\<Sum>r \<leftarrow> live_at addr d. row_value g r) \<and>
    Trimmed b = (\<Sum>r \<leftarrow> trimmed_at addr d. row_value g r) \<and>
    n_Spendable b + n_Locked b = length (live_at addr d) \<and> n_Trimmed b = length (trimmed_at addr d)"
  using sum_length_filter_compl [of "\<lambda>r. spendable_at tip (lock_height r)" "live_at addr d"]
  by (simp add: balance_closed_form [OF assms(1,2,3,3)] sum_list_filter_compl)

theorem GetAddressBalance_sums_witness:
  "\<exists>b. GetAddressBalance ex_goquai (\<lambda>_. Shows ex_db1) (replicate 20 0x80) 1 = Inr b \<and>
     Spendable b = 12 \<and> Spendable b + Locked b = 12"
proof -
  have "live_at (replicate 20 0x80) ex_db1 = t_utxos ex_db1"
    by (simp add: live_at_def ex_db1_rows ex_row_def new_utxo_def row_unspent_def)
  with GetAddressBalance_sums [of "\<lambda>_. Shows ex_db1" ex_db1 ex_goquai "replicate 20 0x80" 1] ex_db1_known
  show ?thesis
    by (auto simp: ex_db1_rows ex_row_def new_utxo_def denom_value_def DenominationValue_def ex_goquai_def
        spendable_at_def word_le_nat_alt)
qed

text \<open>
  C33: The statistics are consistent. On one well-formed state of the tables, \<open>GetStats\<close> returns
  counts of unspent, spent and trimmed rows that add up to the number of rows, the total value of
  the unspent ones, and the height of the tip.
\<close>

theorem GetStats_consistent:
  assumes "\<And>k. snap k = Shows d" "db_ok d" "denoms_known g d"
  shows "\<exists>s. GetStats g snap = Inr s \<and>
    s_UnspentCount s + s_SpentCount s + s_TrimmedCount s = s_TotalUTXOs s \<and>
    s_TotalUTXOs s = length (t_utxos d) \<and>
    s_TotalValue s = (\<Sum>r \<leftarrow> filter row_unspent (t_utxos d). row_value g r) \<and>
    s_TipHeight s = (case tip_row d of None \<Rightarrow> 0 | Some b \<Rightarrow> br_height b)"
proof -
  have k: "\<forall>grp \<in> set (group_count denomination (filter row_unspent (t_utxos d))).
      DenominationValue g (fst grp) \<noteq> None"
    using assms(3) by (auto simp: denoms_known_def dest: group_count_mem)
  show ?thesis
    using assms(1) stats_partition [OF assms(2)]
    by (auto simp: GetStats_def add_value_loop [OF k] stats_counts_def count_rows_def
        group_sum [where key = denomination] split: option.split)
qed

theorem GetStats_consistent_witness:
  "\<exists>s. GetStats ex_goquai (\<lambda>_. Shows ex_db1) = Inr s \<and> s_TotalUTXOs s = 3 \<and>
     s_UnspentCount s + s_SpentCount s + s_TrimmedCount s = 3"
  using GetStats_consistent [of "\<lambda>_. Shows ex_db1" ex_db1 ex_goquai] ex_db1_ok(1) ex_db1_known
  by (auto simp: ex_db1_rows)

text \<open>
  C31: Outpoints by address are complete and exact. The answer has a list for every address asked
  for, also for those without outputs, and for no other key; the list is the unspent rows of that
  address, no more and no less.
\<close>

theorem GetOutpointsByAddresses_exact:
  assumes "GetOutpointsByAddresses snap addrs = Inr res" "snap 0 = Shows d"
  shows "dom res = HexAddr ` set addrs \<and>
    (\<forall>a \<in> set addrs. res (HexAddr a) = Some (scan_rows (live_at a d)))"
proof -
  note cf = outpoints_closed_form [OF assms]
  have "dom res = HexAddr ` set addrs"
    using cf(2) by (auto simp: dom_def cf(1)) (metis option.distinct(1))
  then show ?thesis by (simp add: cf(1))
qed

theorem GetOutpointsByAddresses_exact_witness:
  "\<exists>res. GetOutpointsByAddresses (\<lambda>_. Shows ex_db1) [[7], [8]] = Inr res \<and> res (HexAddr [8]) = Some []"
proof -
  obtain res where res: "GetOutpointsByAddresses (\<lambda>_. Shows ex_db1) [[7], [8]] = Inr res"
    by (simp add: GetOutpointsByAddresses_def  Let_def)
  have "live_at [8] ex_db1 = []"
    by (simp add: live_at_def ex_db1_rows ex_row_def new_utxo_def) (simp add: numeral_eq_Suc)
  with GetOutpointsByAddresses_exact [OF res] res show ?thesis by (simp add: scan_rows_def)
qed

text \<open>
  C10: The events of a block are reported as decoded, all of them and nothing else. On the tables right
  after a block was applied to tables without a mark of its height, \<open>GetBlockUTXOEvents\<close> lists as
  created exactly the outputs the block's events create, in their order and with every column; as
  spent exactly the rows that the block's spends hit by the rules of the ledger, each with the
  transaction that spent it; as trimmed exactly the rows that its sweep hits; and none of them twice.
\<close>

theorem GetBlockUTXOEvents_reports_block:
  assumes "applyBlock g b t = Inr t'" "block_events g b = Inr evs" "db_ok (tx_db t)"
    and "fresh_at (Height b) (tx_db t)" "distinct (map utxo_key (created evs))"
    and "\<And>k. snap k = Shows (tx_db t')"
  shows "\<exists>ev. GetBlockUTXOEvents snap (Height b) = Inr ev \<and>
    map unmarked (ev_Created ev) = scan_rows (created evs) \<and>
    set (ev_Spent ev) = scan_row ` spent_rows (Height b) evs (live (tx_db t)) \<and>
    set (ev_Trimmed ev) = scan_row ` trimmed_rows (Height b) evs (live (tx_db t)) \<and>
    distinct (ev_Created ev) \<and> distinct (ev_Spent ev) \<and> distinct (ev_Trimmed ev)"
proof -
  let ?h = "Height b" and ?d = "tx_db t" and ?d' = "tx_db t'"
  have at: "\<forall>ev \<in> set evs. event_at ?h ev" using block_events_at [OF assms(2)] by blast
  have d': "?d' = run_events ?h evs ?d" using emulatesD [OF applyBlock_emulates assms(1)] assms(2) by auto
  have "db_ok ?d'" unfolding d' by (rule db_ok_run_events [OF assms(3) at])
  then have keys: "distinct (map utxo_key (t_utxos ?d'))" by (simp add: db_ok_def)
  have new: "utxo_key ` set (created evs) \<inter> utxo_key ` set (t_utxos ?d) = {}"
    using fresh_at_keys [OF assms(4)] created_at [OF at] by blast
  have "filter (\<lambda>r. created_block r = ?h) (map row_base (t_utxos ?d)) = []"
    "filter (\<lambda>r. created_block r = ?h) (created evs) = created evs"
    using assms(4) created_at [OF at] by (auto simp: fresh_at_def filter_empty_conv filter_id_conv)
  then have "map row_base (filter (\<lambda>r. created_block r = ?h) (t_utxos ?d')) = created evs"
    unfolding created_base_filter d' created_rows_run [OF assms(5) new] filter_append row_base_created_all [OF at] by simp
  from arg_cong [OF this, of "map scan_row"]
  have created: "map unmarked (scan_rows (filter (\<lambda>r. created_block r = ?h) (t_utxos ?d'))) = scan_rows (created evs)"
    by (simp add: scan_rows_def comp_def)
  have "spent_at ?h ?d = {}" "trimmed_at_height ?h ?d = {}"
    using assms(4) by (auto simp: fresh_at_def spent_at_def trimmed_at_height_def)
  with marked_run [OF at assms(5) new, folded d']
  have marks: "spent_at ?h ?d' = spent_rows ?h evs (live ?d)" "trimmed_at_height ?h ?d' = trimmed_rows ?h evs (live ?d)"
    by (simp_all only: Un_empty_left)
  have "bigint_fits ?h" using block_events_sweep [OF assms(2)] by blast
  then have "GetBlockUTXOEvents snap ?h = Inr
      \<lparr>ev_Created = scan_rows (filter (\<lambda>r. created_block r = ?h) (t_utxos ?d')),
       ev_Spent = scan_rows (filter (\<lambda>r. spent_block r = Some ?h) (t_utxos ?d')),
       ev_Trimmed = scan_rows (filter (\<lambda>r. trimmed_block r = Some ?h) (t_utxos ?d'))\<rparr>"
    using assms(6) by (simp add: GetBlockUTXOEvents_def)
  moreover have "set (scan_rows (filter (\<lambda>r. spent_block r = Some ?h) (t_utxos ?d'))) =
      scan_row ` spent_rows ?h evs (live ?d)"
    "set (scan_rows (filter (\<lambda>r. trimmed_block r = Some ?h) (t_utxos ?d'))) =
      scan_row ` trimmed_rows ?h evs (live ?d)"
    unfolding marks [symmetric] by (simp_all add: scan_rows_def spent_at_def trimmed_at_height_def)
  ultimately show ?thesis using created distinct_scan_rows [OF keys] by simp
qed

theorem GetBlockUTXOEvents_reports_block_witness:
  "\<exists>ev. GetBlockUTXOEvents (\<lambda>_. Shows ex_db2) 2 = Inr ev \<and>
     map unmarked (ev_Created ev) = [scan_row (ex_row 0xB2 0 0 0 SourceQiTx 2)] \<and>
     (\<exists>u \<in> set (ev_Spent ev). u_TxHash u = replicate 32 0xA1 \<and> u_SpentTx u = Some (replicate 32 0xB2))"
proof -
  obtain t where t: "applyBlock ex_goquai ex_block2 (ex_tx ex_db1) = Inr t" "tx_db t = ex_db2"
    using ex_applied by blast
  let ?r = "ex_row 0xA1 0 1 1 SourceCoinbaseETX 1"
  have "?r \<in> live ex_db1" by (simp add: live_def ex_db1_rows row_unspent_def ex_row_def new_utxo_def)
  then have "?r\<lparr>spent_block := Some 2, spent_tx := Some (replicate 32 0xB2), spender_pubkey := Some [0x02, 0xff]\<rparr>
      \<in> (\<lambda>r. r\<lparr>spent_block := Some 2, spent_tx := Some (replicate 32 0xB2), spender_pubkey := Some [0x02, 0xff]\<rparr>) `
        {r \<in> live ex_db1. tx_hash r = replicate 32 0xA1 \<and> tx_index r = 0}"
    by (intro imageI CollectI conjI; (assumption)?) (simp_all add: ex_row_def new_utxo_def)
  then have "?r\<lparr>spent_block := Some 2, spent_tx := Some (replicate 32 0xB2), spender_pubkey := Some [0x02, 0xff]\<rparr>
      \<in> spent_rows 2 ex_events2 (live ex_db1)"
    unfolding ex_events2_def spent_rows.simps event.case by (rule UnI1)
  from imageI [OF this, of scan_row] have
    spent: "\<exists>u \<in> scan_row ` spent_rows 2 ex_events2 (live ex_db1).
      u_TxHash u = replicate 32 0xA1 \<and> u_SpentTx u = Some (replicate 32 0xB2)"
    by (rule rev_bexI) (simp add: scan_row_def ex_row_def new_utxo_def)
  from GetBlockUTXOEvents_reports_block [of ex_goquai ex_block2 "ex_tx ex_db1" t ex_events2 "\<lambda>_. Shows ex_db2"]
    t ex_block2_events ex_db1_ok ex_fresh_keys(2)
  obtain ev where ev: "GetBlockUTXOEvents (\<lambda>_. Shows ex_db2) 2 = Inr ev"
    "map unmarked (ev_Created ev) = scan_rows (created ex_events2)"
    "set (ev_Spent ev) = scan_row ` spent_rows 2 ex_events2 (live ex_db1)"
    by auto
  have "scan_rows (created ex_events2) = [scan_row (ex_row 0xB2 0 0 0 SourceQiTx 2)]"
    by (simp add: ex_events2_def scan_rows_def)
  with ev spent show ?thesis by auto
qed

end
