(* ===== verification/Api.thy ===== *)
theory Api
  imports Reads GoJson "HOL-Library.Char_ord"
begin

text \<open>
  \<open>internal/api/handlers.go\<close> and \<open>server.go\<close>: the REST API over the reader. A handler is a
  function from the protocol's parameters, the snapshots its queries see, the path values and the
  query values (empty when absent) to the status and the JSON body it writes; \<open>Inl\<close> is a panic,
  which the HTTP server turns into an aborted connection. JSON objects list their members in the
  order \<open>encoding/json\<close> writes a map: sorted by key. \<open>route\<close> is the \<open>ServeMux\<close> of \<open>New\<close>, on the
  segments of the path, behind \<open>cors\<close>.
\<close>

type_synonym reply = "err + (nat \<times> json)"

section \<open>Replies\<close>

definition writeJSON :: "nat \<Rightarrow> json \<Rightarrow> reply" where
  "writeJSON status v = Inr (status, v)"

definition writeErr :: "nat \<Rightarrow> string \<Rightarrow> reply" where
  "writeErr status msg = writeJSON status (JObj [(''error'', JStr msg)])"

text \<open>What follows a call of the reader: a panic goes through, an error is a 500.\<close>

definition reading :: "err + 'a \<Rightarrow> ('a \<Rightarrow> reply) \<Rightarrow> reply" where
  "reading r k =
     (case r of
        Inl (Panic s) \<Rightarrow> Inl (Panic s)
      | Inl e \<Rightarrow> writeErr 500 (err_text e)
      | Inr x \<Rightarrow> k x)"

definition bad_request :: "err + 'a \<Rightarrow> string \<Rightarrow> ('a \<Rightarrow> reply) \<Rightarrow> reply" where
  "bad_request r msg k = (case r of Inl e \<Rightarrow> writeErr 400 msg | Inr x \<Rightarrow> k x)"

definition num_nat :: "nat \<Rightarrow> json" where "num_nat n = JNum (FormatUint 10 n)"
definition num_u64 :: "u64 \<Rightarrow> json" where "num_u64 n = num_nat (unat n)"
definition num_i32 :: "i32 \<Rightarrow> json" where "num_i32 i = JNum (FormatInt (sint i))"
definition str_int :: "int \<Rightarrow> json" where "str_int v = JStr (int_Text 10 v)"

definition opt_member :: "string \<Rightarrow> ('a \<Rightarrow> json) \<Rightarrow> 'a option \<Rightarrow> (string \<times> json) list" where
  "opt_member k f v = (case v of None \<Rightarrow> [] | Some x \<Rightarrow> [(k, f x)])"

definition marshalUTXO :: "goquai \<Rightarrow> UTXO \<Rightarrow> err + json" where
  "marshalUTXO g u =
     bindE (UTXO_Value g u)
       (\<lambda>v. Inr (JObj
          ([(''address'', JStr (HexAddr (u_Address u))),
            (''created_block'', num_u64 (u_CreatedBlock u)),
            (''denomination'', num_nat (unat (u_Denomination u))),
            (''lock_height'', num_u64 (u_LockHeight u)),
            (''source'', num_nat (u_Source u))] @
           opt_member ''spent_block'' num_u64 (u_SpentBlock u) @
           opt_member ''spent_tx'' (\<lambda>t. JStr (HexHash t)) (u_SpentTx u) @
           [(''state'', JStr (UTXO_State u))] @
           opt_member ''trim_deadline'' num_u64 (u_TrimDeadline u) @
           opt_member ''trimmed_block'' num_u64 (u_TrimmedBlock u) @
           [(''tx_hash'', JStr (HexHash (u_TxHash u))),
            (''tx_index'', num_i32 (u_TxIndex u)),
            (''value'', str_int v)])))"

definition marshalList :: "goquai \<Rightarrow> UTXO list \<Rightarrow> err + json" where
  "marshalList g us = bindE (mapE (marshalUTXO g) us) (\<lambda>js. Inr (JArr js))"

definition api_decodeHex :: "string \<Rightarrow> err + bytes" where
  "api_decodeHex s = hex_DecodeString (trim0x s)"

section \<open>Cursors\<close>

text \<open>\<open>strings.SplitN(s, ":", 3)\<close>, one separator at a time.\<close>

definition cut_colon :: "string \<Rightarrow> string \<times> string option" where
  "cut_colon s =
     (case dropWhile (\<lambda>c. c \<noteq> CHR '':'') s of
        [] \<Rightarrow> (s, None)
      | _ # r \<Rightarrow> (takeWhile (\<lambda>c. c \<noteq> CHR '':'') s, Some r))"

definition splitN3 :: "string \<Rightarrow> string list" where
  "splitN3 s =
     (case cut_colon s of
        (a, None) \<Rightarrow> [a]
      | (a, Some r) \<Rightarrow>
          (case cut_colon r of
             (b, None) \<Rightarrow> [a, b]
           | (b, Some t) \<Rightarrow> [a, b, t]))"

definition parseCursor :: "string \<Rightarrow> err + cursor" where
  "parseCursor s =
     (case splitN3 s of
        [a, b, c] \<Rightarrow>
          bindE (res_of (ParseUint a 10 64))
            (\<lambda>block. bindE (hex_DecodeString b)
               (\<lambda>hash. bindE (res_of (ParseInt c 10 32))
                  (\<lambda>idx. Inr \<lparr>c_Block = word_of_nat block, c_TxHash = hash, c_TxIndex = word_of_int idx\<rparr>)))
      | _ \<Rightarrow> Inl ErrSyntax)"

definition format_cursor :: "UTXO \<Rightarrow> string" where
  "format_cursor u =
     FormatUint 10 (unat (u_CreatedBlock u)) @ '':'' @ hex_EncodeToString (u_TxHash u) @ '':'' @
     FormatInt (sint (u_TxIndex u))"

section \<open>Handlers\<close>

definition reader_Tip :: "snapshots \<Rightarrow> nat \<Rightarrow> err + block option" where
  "reader_Tip snap k = query_row snap k (\<lambda>d. map_option row_block (tip_row d))"

definition handleTip :: "snapshots \<Rightarrow> reply" where
  "handleTip snap =
     reading (reader_Tip snap 0)
       (\<lambda>tip. case tip of
          None \<Rightarrow> writeErr 404 ''no tip''
        | Some b \<Rightarrow> writeJSON 200 (JObj
            [(''exchange_rate'', JStr (case ExchangeRate b of None \<Rightarrow> [] | Some v \<Rightarrow> ''0x'' @ int_Text 16 v)),
             (''hash'', JStr (Hash b)),
             (''height'', num_u64 (Height b)),
             (''parent_hash'', JStr (ParentHash b)),
             (''timestamp'', num_u64 (Timestamp b))]))"

definition handleGetUTXO :: "goquai \<Rightarrow> snapshots \<Rightarrow> string \<Rightarrow> string \<Rightarrow> reply" where
  "handleGetUTXO g snap p_txhash p_index =
     bad_request (api_decodeHex p_txhash) ''invalid tx hash''
       (\<lambda>txHash. bad_request (res_of (ParseInt p_index 10 32)) ''invalid index''
          (\<lambda>idx. reading (GetUTXO snap txHash (word_of_int idx))
             (\<lambda>r. case r of
                None \<Rightarrow> writeErr 404 ''utxo not found''
              | Some u \<Rightarrow> bindE (marshalUTXO g u) (writeJSON 200))))"

definition handleAddressUTXOs :: "goquai \<Rightarrow> snapshots \<Rightarrow> string \<Rightarrow> reply" where
  "handleAddressUTXOs g snap p_addr =
     bad_request (api_decodeHex p_addr) ''invalid address''
       (\<lambda>addr. reading (GetAddressUTXOs snap addr)
          (\<lambda>utxos. bindE (marshalList g utxos) (writeJSON 200)))"

definition later :: "nat \<Rightarrow> snapshots \<Rightarrow> snapshots" where
  "later n snap = (\<lambda>k. snap (n + k))"

definition handleAddressBalance :: "goquai \<Rightarrow> snapshots \<Rightarrow> string \<Rightarrow> reply" where
  "handleAddressBalance g snap p_addr =
     bad_request (api_decodeHex p_addr) ''invalid address''
       (\<lambda>addr. reading (reader_Tip snap 0)
          (\<lambda>tip. reading (GetAddressBalance g (later 1 snap) addr
                            (case tip of None \<Rightarrow> 0 | Some b \<Rightarrow> Height b))
             (\<lambda>bal. writeJSON 200 (JObj
                [(''locked'', str_int (Locked bal)),
                 (''locked_count'', num_nat (n_Locked bal)),
                 (''spendable'', str_int (Spendable bal)),
                 (''spendable_count'', num_nat (n_Spendable bal)),
                 (''trimmed'', str_int (Trimmed bal)),
                 (''trimmed_count'', num_nat (n_Trimmed bal))]))))"

definition query_limit :: "string \<Rightarrow> int" where
  "query_limit q =
     (if q = [] then 50
      else case res_of (ParseInt q 10 64) of Inr n \<Rightarrow> n | Inl e \<Rightarrow> 50)"

definition query_cursor :: "string \<Rightarrow> err + cursor option" where
  "query_cursor q = (if q = [] then Inr None else bindE (parseCursor q) (\<lambda>c. Inr (Some c)))"

text \<open>\<open>utxos[len(utxos)-1]\<close> panics on an empty page.\<close>

definition next_cursor :: "UTXO list \<Rightarrow> int \<Rightarrow> err + string" where
  "next_cursor utxos limit =
     (if int (length utxos) = limit
      then (if utxos = [] then Inl (Panic ''index out of range [-1]'') else Inr (format_cursor (last utxos)))
      else Inr [])"

definition handleAddressHistory :: "goquai \<Rightarrow> snapshots \<Rightarrow> string \<Rightarrow> string \<Rightarrow> string \<Rightarrow> reply" where
  "handleAddressHistory g snap p_addr q_limit q_before =
     bad_request (api_decodeHex p_addr) ''invalid address''
       (\<lambda>addr. let limit = query_limit q_limit in
          bad_request (query_cursor q_before) ''invalid cursor''
            (\<lambda>cursor. reading (GetAddressHistory snap addr cursor limit)
               (\<lambda>utxos. bindE (marshalList g utxos)
                  (\<lambda>out. bindE (next_cursor utxos limit)
                     (\<lambda>nc. writeJSON 200 (JObj [(''items'', out), (''next_cursor'', JStr nc)]))))))"

definition handleBlockUTXOs :: "goquai \<Rightarrow> snapshots \<Rightarrow> string \<Rightarrow> reply" where
  "handleBlockUTXOs g snap p_height =
     bad_request (res_of (ParseUint p_height 10 64)) ''invalid height''
       (\<lambda>height. reading (GetBlockUTXOEvents snap (word_of_nat height))
          (\<lambda>ev. bindE (marshalList g (ev_Created ev))
             (\<lambda>c. bindE (marshalList g (ev_Spent ev))
                (\<lambda>s. bindE (marshalList g (ev_Trimmed ev))
                   (\<lambda>t. writeJSON 200 (JObj [(''created'', c), (''spent'', s), (''trimmed'', t)]))))))"

definition outpoints_member :: "string \<times> json \<Rightarrow> string list \<Rightarrow> err + string list" where
  "outpoints_member m r = (case m of (k, j) \<Rightarrow>
     if key_is ''addresses'' k
     then bindE (un_slice (\<lambda>j. un_string j []) j) (\<lambda>x. Inr (slice_list x))
     else Inr r)"

definition outpoint_json :: "UTXO \<Rightarrow> json" where
  "outpoint_json u = JObj
     [(''denomination'', JStr (''0x'' @ FormatUint 16 (unat (u_Denomination u)))),
      (''index'', JStr (''0x'' @ int_Text 16 (sint (u_TxIndex u)))),
      (''lock'', JStr (''0x'' @ FormatUint 16 (unat (u_LockHeight u)))),
      (''txHash'', JStr (HexHash (u_TxHash u)))]"

fun decode_addresses :: "string list \<Rightarrow> string + bytes list" where
  "decode_addresses [] = Inr []"
| "decode_addresses (a # as) =
     (case api_decodeHex a of
        Inl e \<Rightarrow> Inl a
      | Inr b \<Rightarrow> (case decode_addresses as of Inl x \<Rightarrow> Inl x | Inr bs \<Rightarrow> Inr (b # bs)))"

text \<open>The keys of the result map are the addresses asked for; the encoder writes them sorted.\<close>

definition outpoints_json :: "bytes list \<Rightarrow> (string \<rightharpoonup> UTXO list) \<Rightarrow> json" where
  "outpoints_json addrs byAddr = JObj
     (map (\<lambda>k. (k, JArr (map outpoint_json (case byAddr k of None \<Rightarrow> [] | Some us \<Rightarrow> us))))
        (sort (remdups (map HexAddr addrs))))"

definition handleOutpoints :: "snapshots \<Rightarrow> json option \<Rightarrow> reply" where
  "handleOutpoints snap body =
     bad_request (case body of None \<Rightarrow> Inl (Ext ''EOF'') | Some j \<Rightarrow> un_struct outpoints_member j [])
       ''invalid request body''
       (\<lambda>addresses.
          if addresses = [] then writeErr 400 ''addresses must not be empty''
          else if 1000 < length addresses then writeErr 400 ''addresses exceeds limit of 1000''
          else (case decode_addresses addresses of
                  Inl a \<Rightarrow> writeErr 400 (''invalid address: '' @ a)
                | Inr addrs \<Rightarrow>
                    reading (GetOutpointsByAddresses snap addrs)
                      (\<lambda>byAddr. writeJSON 200 (outpoints_json addrs byAddr))))"

definition handleStats :: "goquai \<Rightarrow> snapshots \<Rightarrow> reply" where
  "handleStats g snap =
     reading (GetStats g snap)
       (\<lambda>st. writeJSON 200 (JObj
          [(''indexed_from'', num_u64 (s_IndexedFrom st)),
           (''indexed_to'', num_u64 (s_IndexedTo st)),
           (''spent_count'', num_nat (s_SpentCount st)),
           (''tip_height'', num_u64 (s_TipHeight st)),
           (''total_utxos'', num_nat (s_TotalUTXOs st)),
           (''total_value'', str_int (s_TotalValue st)),
           (''trimmed_count'', num_nat (s_TrimmedCount st)),
           (''unspent_count'', num_nat (s_UnspentCount st))]))"

definition handleGetTx :: "goquai \<Rightarrow> snapshots \<Rightarrow> string \<Rightarrow> reply" where
  "handleGetTx g snap p_txhash =
     bad_request (api_decodeHex p_txhash) ''invalid tx hash''
       (\<lambda>txHash. reading (GetTx snap txHash)
          (\<lambda>(t, ok).
             if \<not> ok then writeErr 404 ''tx not found''
             else bindE (marshalList g (tx_Created t))
               (\<lambda>c. bindE (marshalList g (tx_Spent t))
                  (\<lambda>s. writeJSON 200 (JObj [(''created'', c), (''spent'', s)])))))"

section \<open>The server\<close>

datatype meth = GET | HEAD | POST | OPTIONS | OtherMethod

record request =
  r_Method :: meth
  r_Path :: "string list"
  r_Limit :: string
  r_Before :: string
  r_Body :: "json option"

datatype served = NoContent | NotFound | MethodNotAllowed | OpenAPI | Upgrade | Reply reply

text \<open>A \<open>GET\<close> pattern of the mux serves \<open>HEAD\<close> as well; the 404 and 405 are the mux's own.\<close>

definition get_only :: "request \<Rightarrow> served \<Rightarrow> served" where
  "get_only r s = (if r_Method r = GET \<or> r_Method r = HEAD then s else MethodNotAllowed)"

definition route :: "goquai \<Rightarrow> snapshots \<Rightarrow> request \<Rightarrow> served" where
  "route g snap r =
     (case r_Path r of
        [a] \<Rightarrow>
          if a = ''tip'' then get_only r (Reply (handleTip snap))
          else if a = ''stats'' then get_only r (Reply (handleStats g snap))
          else if a = ''openapi.yaml'' then get_only r OpenAPI
          else if a = ''ws'' then get_only r Upgrade
          else if a = ''outpoints''
          then (if r_Method r = POST then Reply (handleOutpoints snap (r_Body r)) else MethodNotAllowed)
          else NotFound
      | [a, x] \<Rightarrow>
          if a = ''tx'' then get_only r (Reply (handleGetTx g snap x)) else NotFound
      | [a, x, y] \<Rightarrow>
          if a = ''utxo'' then get_only r (Reply (handleGetUTXO g snap x y))
          else if a = ''address'' \<and> y = ''utxos'' then get_only r (Reply (handleAddressUTXOs g snap x))
          else if a = ''address'' \<and> y = ''balance'' then get_only r (Reply (handleAddressBalance g snap x))
          else if a = ''address'' \<and> y = ''history''
          then get_only r (Reply (handleAddressHistory g snap x (r_Limit r) (r_Before r)))
          else if a = ''block'' \<and> y = ''utxos'' then get_only r (Reply (handleBlockUTXOs g snap x))
          else NotFound
      | _ \<Rightarrow> NotFound)"

definition cors :: "(request \<Rightarrow> served) \<Rightarrow> request \<Rightarrow> served" where
  "cors next r = (if r_Method r = OPTIONS then NoContent else next r)"

definition serve :: "goquai \<Rightarrow> snapshots \<Rightarrow> request \<Rightarrow> served" where
  "serve g snap = cors (route g snap)"

definition broadcast_payload :: "goquai \<Rightarrow> block_utxo_events \<Rightarrow> err + json" where
  "broadcast_payload g ev =
     bindE (marshalList g (ev_Created ev))
       (\<lambda>c. bindE (marshalList g (ev_Spent ev))
          (\<lambda>s. bindE (marshalList g (ev_Trimmed ev))
             (\<lambda>t. Inr (JObj [(''created'', c), (''spent'', s), (''trimmed'', t)]))))"

section \<open>Cursors survive the round trip\<close>

lemma cut_colon_append: "CHR '':'' \<notin> set a \<Longrightarrow> cut_colon (a @ CHR '':'' # r) = (a, Some r)"
proof -
  assume a: "CHR '':'' \<notin> set a"
  then have "dropWhile (\<lambda>c. c \<noteq> CHR '':'') (a @ CHR '':'' # r) = CHR '':'' # r"
    "takeWhile (\<lambda>c. c \<noteq> CHR '':'') (a @ CHR '':'' # r) = a"
    by (auto simp: dropWhile_append3 takeWhile_append2) (subst takeWhile_append2; auto)+
  then show ?thesis by (simp add: cut_colon_def)
qed

lemma cursor_round_trip: "parseCursor (format_cursor u) = Inr (cursor_of u)"
proof -
  have s: "splitN3 (format_cursor u) =
    [FormatUint 10 (unat (u_CreatedBlock u)), hex_EncodeToString (u_TxHash u), FormatInt (sint (u_TxIndex u))]"
    by (simp add: format_cursor_def splitN3_def cut_colon_append FormatUint_no_colon hex_Encode_no_colon)
  have "ParseUint (FormatUint 10 (unat (u_CreatedBlock u))) 10 64 = (unat (u_CreatedBlock u), None)"
    by (rule ParseUint_FormatUint) simp_all
  moreover have "- (2 ^ (32 - 1)) \<le> sint (u_TxIndex u)" "sint (u_TxIndex u) < 2 ^ (32 - 1)"
    using sint_ge [of "u_TxIndex u"] sint_lt [of "u_TxIndex u"] by simp_all
  then have "ParseInt (FormatInt (sint (u_TxIndex u))) 10 32 = (sint (u_TxIndex u), None)"
    by (intro ParseInt_FormatInt) simp_all
  ultimately show ?thesis
    by (simp add: parseCursor_def s res_of_def cursor_of_def)
qed

section \<open>Crawling the history\<close>

text \<open>
  \<open>history_reply\<close> is one page as the handler computes it; \<open>crawl\<close> is a client that follows
  \<open>next_cursor\<close> until it is empty, for at most so many requests.
\<close>

definition history_reply :: "snapshots \<Rightarrow> bytes \<Rightarrow> int \<Rightarrow> string \<Rightarrow> err + (UTXO list \<times> string)" where
  "history_reply snap addr limit before =
     bindE (query_cursor before)
       (\<lambda>c. bindE (GetAddressHistory snap addr c limit)
          (\<lambda>utxos. bindE (next_cursor utxos limit) (\<lambda>nc. Inr (utxos, nc))))"

fun crawl :: "(string \<Rightarrow> err + (UTXO list \<times> string)) \<Rightarrow> nat \<Rightarrow> string \<Rightarrow> err + UTXO list" where
  "crawl page 0 before = Inl (Msg ''too many pages'')"
| "crawl page (Suc n) before =
     bindE (page before)
       (\<lambda>(us, nc). if nc = [] then Inr us else bindE (crawl page n nc) (\<lambda>rest. Inr (us @ rest)))"

lemma handleAddressHistory_reply:
  assumes "api_decodeHex p_addr = Inr addr" "history_reply snap addr (query_limit q_limit) q_before = Inr (us, nc)"
    and "marshalList g us = Inr out"
  shows "handleAddressHistory g snap p_addr q_limit q_before =
    Inr (200, JObj [(''items'', out), (''next_cursor'', JStr nc)])"
  using assms
  by (auto simp: handleAddressHistory_def history_reply_def bad_request_def reading_def writeJSON_def
      bindE_eq_Inr Let_def)

text \<open>The cursor that stands before the rows from position \<open>i\<close> on.\<close>

definition cursor_at :: "utxo list \<Rightarrow> nat \<Rightarrow> string" where
  "cursor_at L i = (if i = 0 then [] else format_cursor (scan_row (L ! (i - 1))))"

lemma format_cursor_not_Nil [simp]: "format_cursor u \<noteq> []"
  by (simp add: format_cursor_def)

lemma history_reply_at:
  assumes "snap 0 = Shows d" "db_ok d" "0 < n" "n \<le> 200" "i \<le> length (history_list addr d)"
  shows "history_reply snap addr (int n) (cursor_at (history_list addr d) i) =
    Inr (scan_rows (take n (drop i (history_list addr d))),
         if n \<le> length (history_list addr d) - i then cursor_at (history_list addr d) (i + n) else [])"
proof -
  let ?L = "history_list addr d"
  let ?page = "scan_rows (take n (drop i ?L))"
  have lim: "history_limit (int n) = n" using assms(3,4) by (simp add: history_limit_def)
  have "bindE (query_cursor (cursor_at ?L i)) (\<lambda>c. GetAddressHistory snap addr c (int n)) = Inr ?page"
  proof (cases "i = 0")
    case True
    then show ?thesis
      using history_first_page [where snap = snap and d = d and addr = addr and limit = "int n"] assms(1) lim
      by (simp add: cursor_at_def query_cursor_def)
  next
    case False
    then have "i - 1 < length ?L" "Suc (i - 1) = i" using assms(5) by auto
    with history_page [where snap = snap and d = d and addr = addr and i = "i - 1" and limit = "int n"]
      assms(1,2) lim False show ?thesis
      by (simp add: cursor_at_def query_cursor_def cursor_round_trip)
  qed
  then have r: "history_reply snap addr (int n) (cursor_at ?L i) =
      bindE (next_cursor ?page (int n)) (\<lambda>nc. Inr (?page, nc))"
    unfolding history_reply_def by (auto simp: bindE_eq_Inr)
  have len: "length ?page = min n (length ?L - i)" by (simp add: scan_rows_def min.commute)
  show ?thesis
  proof (cases "n \<le> length ?L - i")
    case True
    then have le: "i + n \<le> length ?L" using assms(3) by linarith
    have "last ?page = scan_row (?L ! (i + n - 1))"
      using le assms(3) by (simp add: scan_rows_def last_conv_nth)
    moreover have "?page \<noteq> []" using len True assms(3) by auto
    ultimately have "next_cursor ?page (int n) = Inr (cursor_at ?L (i + n))"
      using len True assms(3) by (simp add: next_cursor_def cursor_at_def min_def)
    with r True show ?thesis by simp
  next
    case False
    with len have "next_cursor ?page (int n) = Inr []" by (simp add: next_cursor_def)
    with r False show ?thesis by simp
  qed
qed

lemma crawl_at:
  assumes "snap 0 = Shows d" "db_ok d" "0 < n" "n \<le> 200"
  shows "i \<le> length (history_list addr d) \<Longrightarrow> length (history_list addr d) - i < fuel \<Longrightarrow>
    crawl (history_reply snap addr (int n)) fuel (cursor_at (history_list addr d) i) =
    Inr (scan_rows (drop i (history_list addr d)))"
proof (induction fuel arbitrary: i)
  case (Suc fuel)
  let ?L = "history_list addr d"
  have page: "history_reply snap addr (int n) (cursor_at ?L i) =
      Inr (scan_rows (take n (drop i ?L)), if n \<le> length ?L - i then cursor_at ?L (i + n) else [])"
    using assms Suc.prems(1) by (intro history_reply_at)
  show ?case
  proof (cases "n \<le> length ?L - i")
    case True
    then have le: "i + n \<le> length ?L" "length ?L - (i + n) < fuel" using assms(3) Suc.prems by linarith+
    have ne: "cursor_at ?L (i + n) \<noteq> []" using assms(3) by (simp add: cursor_at_def)
    have "drop i ?L = take n (drop i ?L) @ drop (i + n) ?L"
      by (metis append_take_drop_id drop_drop add.commute)
    then have "scan_rows (drop i ?L) = scan_rows (take n (drop i ?L)) @ scan_rows (drop (i + n) ?L)"
      unfolding scan_rows_def by (metis map_append)
    with page True ne Suc.IH [OF le] show ?thesis by simp
  next
    case False
    then have "take n (drop i ?L) = drop i ?L" by simp
    with page False show ?thesis by simp
  qed
qed simp

section \<open>Every request is answered\<close>

named_theorems reply_intros

definition good_reply :: "reply \<Rightarrow> bool" where
  "good_reply rep \<longleftrightarrow> (\<exists>status j. rep = Inr (status, j) \<and> status \<in> {200, 400, 404, 500})"

definition no_panic :: "err + 'a \<Rightarrow> bool" where
  "no_panic r \<longleftrightarrow> (\<forall>s. r \<noteq> Inl (Panic s))"

lemma good_write [reply_intros]: "good_reply (writeJSON 200 j)" "good_reply (writeErr 400 m)"
  "good_reply (writeErr 404 m)" "good_reply (writeErr 500 m)"
  by (simp_all add: good_reply_def writeErr_def writeJSON_def)

lemma good_reading [reply_intros]:
  "no_panic r \<Longrightarrow> (\<And>x. r = Inr x \<Longrightarrow> good_reply (k x)) \<Longrightarrow> good_reply (reading r k)"
  by (auto simp: reading_def no_panic_def intro: good_write split: sum.split err.split)

lemma good_bad_request [reply_intros]:
  "(\<And>x. r = Inr x \<Longrightarrow> good_reply (k x)) \<Longrightarrow> good_reply (bad_request r m k)"
  by (auto simp: bad_request_def intro: good_write split: sum.split)

lemma good_bind: "r = Inr y \<Longrightarrow> good_reply (k y) \<Longrightarrow> good_reply (bindE r k)"
  by simp

lemma no_panic_bind: "no_panic r \<Longrightarrow> (\<And>x. r = Inr x \<Longrightarrow> no_panic (k x)) \<Longrightarrow> no_panic (bindE r k)"
  by (cases r) (auto simp: no_panic_def)

lemma no_panic_Inr [simp]: "no_panic (Inr x)"
  by (simp add: no_panic_def)

lemma no_panic_wrap: "no_panic (wrapE m r)"
  by (simp add: no_panic_def wrapE_def split: sum.split)

text \<open>
  What a query gives: its error is an error value and not a panic (\<open>plain_answer\<close>), and the tables it
  sees may hold a denomination that go-quai does not know (\<open>unknown_answer\<close>), since the decoder stores
  whatever byte the block has.
\<close>

definition plain_answer :: "answer \<Rightarrow> bool" where
  "plain_answer a =
     (case a of Refuses e \<Rightarrow> \<forall>s. e \<noteq> Panic s | Shows d \<Rightarrow> True | Breaks d n e \<Rightarrow> \<forall>s. e \<noteq> Panic s)"

definition unknown_answer :: "goquai \<Rightarrow> answer \<Rightarrow> bool" where
  "unknown_answer g a =
     (case a of Refuses e \<Rightarrow> False | Shows d \<Rightarrow> \<not> denoms_known g d | Breaks d n e \<Rightarrow> \<not> denoms_known g d)"

definition answer_ok :: "goquai \<Rightarrow> answer \<Rightarrow> bool" where
  "answer_ok g a =
     (case a of
        Refuses e \<Rightarrow> \<forall>s. e \<noteq> Panic s
      | Shows d \<Rightarrow> denoms_known g d
      | Breaks d n e \<Rightarrow> denoms_known g d \<and> (\<forall>s. e \<noteq> Panic s))"

lemma answer_ok_iff: "answer_ok g a \<longleftrightarrow> plain_answer a \<and> \<not> unknown_answer g a"
  by (cases a) (auto simp: answer_ok_def plain_answer_def unknown_answer_def)

definition snaps_ok :: "goquai \<Rightarrow> snapshots \<Rightarrow> bool" where
  "snaps_ok g snap \<longleftrightarrow> (\<forall>k. answer_ok g (snap k))"

definition known_utxos :: "goquai \<Rightarrow> UTXO list \<Rightarrow> bool" where
  "known_utxos g us \<longleftrightarrow> (\<forall>u \<in> set us. DenominationValue g (u_Denomination u) \<noteq> None)"

lemma known_scan: "denoms_known g d \<Longrightarrow> set rows \<subseteq> set (t_utxos d) \<Longrightarrow> known_utxos g (scan_rows rows)"
  by (auto simp: denoms_known_def known_utxos_def scan_rows_def scan_row_def)

lemma marshalUTXO_known:
  "DenominationValue g (u_Denomination u) \<noteq> None \<Longrightarrow> \<exists>j. marshalUTXO g u = Inr j"
  by (auto simp: marshalUTXO_def UTXO_Value_def value_of_def)

lemma marshalUTXO_unknown:
  "DenominationValue g (u_Denomination u) = None \<Longrightarrow> marshalUTXO g u = Inl NilDeref"
  by (simp add: marshalUTXO_def UTXO_Value_def value_of_def)

lemma marshalList_unknown: "\<not> known_utxos g us \<Longrightarrow> marshalList g us = Inl NilDeref"
proof -
  assume "\<not> known_utxos g us"
  then have "mapE (marshalUTXO g) us = Inl NilDeref"
  proof (induction us)
    case (Cons u us)
    show ?case
    proof (cases "DenominationValue g (u_Denomination u)")
      case None
      then show ?thesis by (simp add: marshalUTXO_unknown)
    next
      case (Some v)
      with Cons have "mapE (marshalUTXO g) us = Inl NilDeref" by (simp add: known_utxos_def)
      moreover obtain j where "marshalUTXO g u = Inr j" using marshalUTXO_known [of g u] Some by auto
      ultimately show ?thesis by simp
    qed
  qed (simp add: known_utxos_def)
  then show ?thesis by (simp add: marshalList_def)
qed

lemma marshalList_known: "known_utxos g us \<Longrightarrow> \<exists>j. marshalList g us = Inr j"
proof -
  assume "known_utxos g us"
  then have "\<exists>js. mapE (marshalUTXO g) us = Inr js"
  proof (induction us)
    case (Cons u us)
    then obtain j js where "marshalUTXO g u = Inr j" "mapE (marshalUTXO g) us = Inr js"
      using marshalUTXO_known [of g u] by (auto simp: known_utxos_def)
    then show ?case by simp
  qed simp
  then show ?thesis by (auto simp: marshalList_def)
qed

lemma no_panic_query_row: "snaps_ok g snap \<Longrightarrow> no_panic (query_row snap k f)"
  by (auto simp: query_row_def snaps_ok_def answer_ok_def no_panic_def split: answer.splits)

lemma query_rows:
  assumes "snaps_ok g snap" "query snap k args f = Inr (rs, e)"
  shows "\<exists>d. denoms_known g d \<and> set rs \<subseteq> set (f d) \<and> (\<forall>s. e \<noteq> Some (Panic s))"
proof -
  have ok: "answer_ok g (snap k)" using assms(1) by (simp add: snaps_ok_def)
  show ?thesis
  proof (cases "snap k")
    case (Breaks d n e')
    with assms(2) have "rs = take n (f d)" "e = Some e'" by (auto simp: query_def bindE_eq_Inr)
    with ok Breaks set_take_subset [of n "f d"] show ?thesis by (auto simp: answer_ok_def)
  qed (use ok assms(2) in \<open>auto simp: query_def bindE_eq_Inr answer_ok_def\<close>)
qed

lemma no_panic_query: "snaps_ok g snap \<Longrightarrow> no_panic (query snap k args f)"
proof (cases "bigint_args args")
  case (Inr u)
  assume "snaps_ok g snap"
  then have "answer_ok g (snap k)" by (simp add: snaps_ok_def)
  with Inr show ?thesis by (cases "snap k") (simp_all add: query_def bigint_args_def no_panic_def answer_ok_def)
qed (auto simp: query_def bigint_args_def no_panic_def BigintRange_def split: if_splits)

lemma no_panic_rows_Err: "\<forall>s. e \<noteq> Some (Panic s) \<Longrightarrow> no_panic (rows_Err e x)"
  by (cases e) (auto simp: rows_Err_def no_panic_def)

lemma no_panic_read:
  "snaps_ok g snap \<Longrightarrow> no_panic (bindE (query snap k args f) scanUTXOs)"
  by (intro no_panic_bind no_panic_query; (assumption)?)
    (auto simp: scanUTXOs_def dest!: query_rows intro!: no_panic_rows_Err)

lemma no_panic_adds:
  "\<forall>grp \<in> set rows. DenominationValue g (fst (fst grp)) \<noteq> None \<Longrightarrow> no_panic (foldE (add_unspent g tip) rows b)"
  "\<forall>grp \<in> set trows. DenominationValue g (fst grp) \<noteq> None \<Longrightarrow> no_panic (foldE (add_trimmed g) trows b)"
  "\<forall>grp \<in> set trows. DenominationValue g (fst grp) \<noteq> None \<Longrightarrow> no_panic (foldE (add_value g) trows st)"
  by (simp_all add: add_unspent_loop add_trimmed_loop add_value_loop)

lemma no_panic_wrap_read:
  "snaps_ok g snap \<Longrightarrow> no_panic (bindE (wrapE m (query snap k args f)) scanUTXOs)"
  by (intro no_panic_bind no_panic_wrap)
    (auto simp: scanUTXOs_def wrapE_def split: sum.splits dest!: query_rows intro!: no_panic_rows_Err)

lemma group_query:
  assumes "snaps_ok g snap" "query snap k args (\<lambda>d. group_count key (rows d)) = Inr (grps, e)"
    and "\<And>d. set (rows d) \<subseteq> set (t_utxos d)"
  shows "\<forall>grp \<in> set grps. \<exists>r. DenominationValue g (denomination r) \<noteq> None \<and> fst grp = key r"
    and "no_panic (rows_Err e x)"
proof -
  obtain d where d: "denoms_known g d" "set grps \<subseteq> set (group_count key (rows d))" "\<forall>s. e \<noteq> Some (Panic s)"
    using query_rows [OF assms(1,2)] by blast
  show "\<forall>grp \<in> set grps. \<exists>r. DenominationValue g (denomination r) \<noteq> None \<and> fst grp = key r"
  proof
    fix grp assume "grp \<in> set grps"
    with d(2) have "grp \<in> set (group_count key (rows d))" by blast
    with group_count_mem obtain r where "r \<in> set (rows d)" "fst grp = key r" by metis
    moreover from this assms(3) have "r \<in> set (t_utxos d)" by blast
    ultimately show "\<exists>r. DenominationValue g (denomination r) \<noteq> None \<and> fst grp = key r"
      using d(1) unfolding denoms_known_def by blast
  qed
  show "no_panic (rows_Err e x)" by (rule no_panic_rows_Err [OF d(3)])
qed

lemma no_panic_balance:
  assumes "snaps_ok g snap"
  shows "no_panic (GetAddressBalance g snap addr tip)"
proof -
  have 1: "no_panic (foldE (add_unspent g tip) grps b)" "no_panic (rows_Err e s)"
    if "query snap 0 [] (\<lambda>d. group_count (\<lambda>r. (denomination r, lock_height r)) (live_at addr d)) = Inr (grps, e)"
    for grps e b and s :: balance
  proof -
    have "\<And>d. set (live_at addr d) \<subseteq> set (t_utxos d)" by (auto simp: live_at_def)
    note q = group_query [OF assms that this]
    from q(1) have "\<forall>grp \<in> set grps. DenominationValue g (fst (fst grp)) \<noteq> None" by force
    then show "no_panic (foldE (add_unspent g tip) grps b)" by (rule no_panic_adds)
    show "no_panic (rows_Err e s)" by (rule q(2))
  qed
  have 2: "no_panic (foldE (add_trimmed g) grps b)" "no_panic (rows_Err e s)"
    if "query snap 1 [] (\<lambda>d. group_count denomination (trimmed_at addr d)) = Inr (grps, e)"
    for grps e b and s :: balance
  proof -
    have "\<And>d. set (trimmed_at addr d) \<subseteq> set (t_utxos d)" by (auto simp: trimmed_at_def)
    note q = group_query [OF assms that this]
    from q(1) have "\<forall>grp \<in> set grps. DenominationValue g (fst grp) \<noteq> None" by force
    then show "no_panic (foldE (add_trimmed g) grps b)" by (rule no_panic_adds)
    show "no_panic (rows_Err e s)" by (rule q(2))
  qed
  show ?thesis
    unfolding GetAddressBalance_def
    by (auto intro!: no_panic_bind no_panic_query [OF assms] intro: 1 2 split: prod.split)
qed

lemma no_panic_stats:
  assumes "snaps_ok g snap"
  shows "no_panic (GetStats g snap)"
proof -
  have 1: "no_panic (foldE (add_value g) grps b)" "no_panic (rows_Err e s)"
    if "query snap 1 [] (\<lambda>d. group_count denomination (filter row_unspent (t_utxos d))) = Inr (grps, e)"
    for grps e b and s :: stats
  proof -
    have "\<And>d. set (filter row_unspent (t_utxos d)) \<subseteq> set (t_utxos d)" by auto
    note q = group_query [OF assms that this]
    from q(1) have "\<forall>grp \<in> set grps. DenominationValue g (fst grp) \<noteq> None" by force
    then show "no_panic (foldE (add_value g) grps b)" by (rule no_panic_adds)
    show "no_panic (rows_Err e s)" by (rule q(2))
  qed
  show ?thesis
    unfolding GetStats_def
    by (auto intro!: no_panic_bind no_panic_query [OF assms] no_panic_query_row [OF assms] 1 split: prod.split)
qed

lemma known_read:
  assumes "snaps_ok g snap" "bindE (query snap k args rows) scanUTXOs = Inr us"
    and "\<And>d. set (rows d) \<subseteq> set (t_utxos d)"
  shows "known_utxos g us"
proof -
  obtain rs where rs: "query snap k args rows = Inr (rs, None)" "us = scan_rows rs"
    using assms(2) by (auto simp: bindE_eq_Inr)
  from query_rows [OF assms(1) rs(1)] obtain d where d: "denoms_known g d" "set rs \<subseteq> set (rows d)" by blast
  then have "set rs \<subseteq> set (t_utxos d)" using assms(3) by blast
  with d(1) rs(2) show ?thesis by (simp add: known_scan)
qed

lemma known_filter:
  "snaps_ok g snap \<Longrightarrow> bindE (query snap k args (\<lambda>d. filter (P d) (t_utxos d))) scanUTXOs = Inr us \<Longrightarrow>
   known_utxos g us"
  by (erule known_read) auto

lemma known_GetUTXO:
  assumes "snaps_ok g snap" "GetUTXO snap h i = Inr (Some u)"
  shows "DenominationValue g (u_Denomination u) \<noteq> None"
proof -
  obtain d where d: "snap 0 = Shows d"
    "Some u = map_option scan_row (find (\<lambda>r. tx_hash r = h \<and> tx_index r = i) (t_utxos d))"
    using assms(2) by (auto simp: GetUTXO_def query_row_Inr)
  have "answer_ok g (snap 0)" using assms(1) by (simp add: snaps_ok_def)
  then have "denoms_known g d" using d(1) by (simp add: answer_ok_def)
  moreover from d(2) [symmetric] obtain r where "r \<in> set (t_utxos d)" "u = scan_row r"
    by (auto simp: find_Some_iff dest!: nth_mem)
  ultimately show ?thesis by (auto simp: denoms_known_def scan_row_def)
qed

lemma known_AddressUTXOs: "snaps_ok g snap \<Longrightarrow> GetAddressUTXOs snap a = Inr us \<Longrightarrow> known_utxos g us"
  unfolding GetAddressUTXOs_def by (erule known_read) (auto simp: live_at_def)

lemma known_AddressHistory: "snaps_ok g snap \<Longrightarrow> GetAddressHistory snap a c l = Inr us \<Longrightarrow> known_utxos g us"
  unfolding GetAddressHistory_def by (erule known_read) (auto dest!: in_set_takeD)

lemma wrapE_Inr_iff: "wrapE m r = Inr x \<longleftrightarrow> r = Inr x"
  by (cases r) (simp_all add: wrapE_def)

lemma wrapE_bind_Inr: "bindE (wrapE m r) k = Inr x \<longleftrightarrow> bindE r k = Inr x"
  by (simp add: bindE_eq_Inr wrapE_Inr_iff)

lemma known_BlockEvents:
  assumes "snaps_ok g snap" "GetBlockUTXOEvents snap h = Inr ev"
  shows "known_utxos g (ev_Created ev) \<and> known_utxos g (ev_Spent ev) \<and> known_utxos g (ev_Trimmed ev)"
proof -
  obtain c s t where e:
    "bindE (query snap 0 [h] (\<lambda>d. filter (\<lambda>r. created_block r = h) (t_utxos d))) scanUTXOs = Inr c"
    "bindE (query snap 1 [h] (\<lambda>d. filter (\<lambda>r. spent_block r = Some h) (t_utxos d))) scanUTXOs = Inr s"
    "bindE (query snap 2 [h] (\<lambda>d. filter (\<lambda>r. trimmed_block r = Some h) (t_utxos d))) scanUTXOs = Inr t"
    "ev = \<lparr>ev_Created = c, ev_Spent = s, ev_Trimmed = t\<rparr>"
    using assms(2) unfolding GetBlockUTXOEvents_def bindE_eq_Inr [of "bindE (wrapE _ _) _"] wrapE_bind_Inr
    by blast
  from known_filter [OF assms(1) e(1)] known_filter [OF assms(1) e(2)] known_filter [OF assms(1) e(3)] e(4)
  show ?thesis by simp
qed

lemma known_GetTx:
  assumes "snaps_ok g snap" "GetTx snap h = Inr (t, ok)"
  shows "known_utxos g (tx_Created t) \<and> known_utxos g (tx_Spent t)"
proof -
  obtain c s where e: "bindE (query snap 0 [] (\<lambda>d. filter (\<lambda>r. tx_hash r = h) (t_utxos d))) scanUTXOs = Inr c"
    "bindE (query snap 1 [] (\<lambda>d. filter (\<lambda>r. spent_tx r = Some h) (t_utxos d))) scanUTXOs = Inr s"
    "t = \<lparr>tx_Created = c, tx_Spent = s\<rparr>"
    using assms(2) unfolding GetTx_def bindE_eq_Inr [of "bindE (query _ _ _ _) _"] by blast
  from known_filter [OF assms(1) e(1)] known_filter [OF assms(1) e(2)] e(3) show ?thesis by simp
qed

lemma good_marshal [reply_intros]:
  "known_utxos g us \<Longrightarrow> (\<And>j. good_reply (k j)) \<Longrightarrow> good_reply (bindE (marshalList g us) k)"
  using marshalList_known [of g us] by auto

lemma next_cursor_total: "limit \<noteq> 0 \<Longrightarrow> \<exists>nc. next_cursor us limit = Inr nc"
  by (auto simp: next_cursor_def)

lemma good_handlers:
  assumes "snaps_ok g snap"
  shows "good_reply (handleTip snap)" "good_reply (handleGetUTXO g snap p q)"
    "good_reply (handleAddressUTXOs g snap p)" "good_reply (handleAddressBalance g snap p)"
    "good_reply (handleBlockUTXOs g snap p)" "good_reply (handleStats g snap)"
    "good_reply (handleGetTx g snap p)" "good_reply (handleOutpoints snap body)"
    "query_limit ql \<noteq> 0 \<Longrightarrow> good_reply (handleAddressHistory g snap p ql qb)"
proof -
  note np = no_panic_query_row [OF assms] and nr = no_panic_read [OF assms]
  have later: "snaps_ok g (later n snap)" for n using assms by (simp add: snaps_ok_def later_def)
  show "good_reply (handleTip snap)"
    unfolding handleTip_def reader_Tip_def
    by (intro reply_intros np) (auto intro: reply_intros split: option.split)
  show "good_reply (handleStats g snap)"
    unfolding handleStats_def by (intro reply_intros no_panic_stats [OF assms])
  show "good_reply (handleGetUTXO g snap p q)"
  proof -
    have "good_reply (case r of None \<Rightarrow> writeErr 404 ''utxo not found''
        | Some u \<Rightarrow> bindE (marshalUTXO g u) (writeJSON 200))" if "GetUTXO snap h i = Inr r" for h i r
      using marshalUTXO_known known_GetUTXO [OF assms] that
      by (auto split: option.split intro: reply_intros) (metis good_bind good_write(1))
    then show ?thesis
      unfolding handleGetUTXO_def by (intro reply_intros) (auto simp: GetUTXO_def intro: np)
  qed
  show "good_reply (handleAddressUTXOs g snap p)"
    unfolding handleAddressUTXOs_def
    by (intro reply_intros known_AddressUTXOs [OF assms]) (simp_all add: GetAddressUTXOs_def nr)
  show "good_reply (handleAddressBalance g snap p)"
    unfolding handleAddressBalance_def reader_Tip_def
    by (intro reply_intros np no_panic_balance [OF later])
  show "good_reply (handleBlockUTXOs g snap p)"
    unfolding handleBlockUTXOs_def
    using known_BlockEvents [OF assms]
    by (intro reply_intros)
      (auto simp: GetBlockUTXOEvents_def intro!: no_panic_bind [OF no_panic_wrap_read [OF assms]])
  show "good_reply (handleGetTx g snap p)"
  proof -
    have "good_reply (case x of (t, ok) \<Rightarrow> if \<not> ok then writeErr 404 ''tx not found''
        else bindE (marshalList g (tx_Created t)) (\<lambda>c. bindE (marshalList g (tx_Spent t))
          (\<lambda>s. writeJSON 200 (JObj [(''created'', c), (''spent'', s)]))))" if "GetTx snap h = Inr x" for h x
      using known_GetTx [OF assms, of h "fst x" "snd x"] that
      by (auto split: prod.split intro!: reply_intros)
    then show ?thesis
      unfolding handleGetTx_def
      by (intro reply_intros) (auto simp: GetTx_def intro!: no_panic_bind [OF nr])
  qed
  show "good_reply (handleOutpoints snap body)"
  proof -
    have "no_panic (GetOutpointsByAddresses snap addrs)" for addrs
      unfolding GetOutpointsByAddresses_def Let_def by (intro no_panic_bind [OF nr] no_panic_Inr)
    then show ?thesis
      unfolding handleOutpoints_def
      by (intro reply_intros) (auto intro!: reply_intros split: sum.split)
  qed
  show "good_reply (handleAddressHistory g snap p ql qb)" if "query_limit ql \<noteq> 0"
  proof -
    have nc: "good_reply (bindE (next_cursor us (query_limit ql)) k)" if "\<And>nc. good_reply (k nc)" for us k
      using next_cursor_total [OF \<open>query_limit ql \<noteq> 0\<close>, of us] that by auto
    have np': "no_panic (GetAddressHistory snap a c l)" for a c l by (simp add: GetAddressHistory_def nr)
    show ?thesis
      unfolding handleAddressHistory_def Let_def
      by (intro reply_intros nc np' known_AddressHistory [OF assms])
  qed
qed

text \<open>With the limit zero an empty page has as many rows as asked for, and its last row is read.\<close>

definition EmptyPage :: err where "EmptyPage = Panic ''index out of range [-1]''"

lemma history_zero_limit:
  assumes "snaps_ok g snap" "query_limit ql = 0"
  shows "good_reply (handleAddressHistory g snap p ql qb) \<or> handleAddressHistory g snap p ql qb = Inl EmptyPage"
proof (cases "api_decodeHex p")
  case (Inr addr)
  show ?thesis
  proof (cases "query_cursor qb")
    case (Inr c)
    note h = \<open>api_decodeHex p = Inr addr\<close> Inr
    show ?thesis
    proof (cases "GetAddressHistory snap addr c 0")
      case (Inl e)
      moreover have "no_panic (GetAddressHistory snap addr c 0)"
        by (simp add: GetAddressHistory_def no_panic_read [OF assms(1)])
      ultimately have "good_reply (reading (GetAddressHistory snap addr c 0) k)" for k
        by (intro good_reading) simp_all
      with h assms(2) show ?thesis by (simp add: handleAddressHistory_def bad_request_def)
    next
      case (Inr us)
      from marshalList_known [OF known_AddressHistory [OF assms(1) this]] obtain out where
        "marshalList g us = Inr out" by blast
      with h Inr assms(2) show ?thesis
        by (auto simp: handleAddressHistory_def bad_request_def reading_def next_cursor_def EmptyPage_def
            intro: reply_intros)
    qed
  qed (simp add: handleAddressHistory_def bad_request_def \<open>api_decodeHex p = Inr addr\<close> reply_intros)
qed (simp add: handleAddressHistory_def bad_request_def reply_intros)

text \<open>
  Without the condition on the denominations a handler may also panic on the missing value of one,
  and in no other way.
\<close>

named_theorems near_intros

definition near_reply :: "reply \<Rightarrow> bool" where
  "near_reply rep \<longleftrightarrow> good_reply rep \<or> rep = Inl NilDeref"

definition nil_only :: "err + 'a \<Rightarrow> bool" where
  "nil_only r \<longleftrightarrow> (\<forall>s. r = Inl (Panic s) \<longrightarrow> Panic s = NilDeref)"

lemma near_write [near_intros]: "near_reply (writeJSON 200 j)" "near_reply (writeErr 400 m)"
  "near_reply (writeErr 404 m)" "near_reply (writeErr 500 m)"
  by (simp_all add: near_reply_def reply_intros)

lemma near_reading [near_intros]:
  assumes "nil_only r" "\<And>x. r = Inr x \<Longrightarrow> near_reply (k x)"
  shows "near_reply (reading r k)"
proof (cases r)
  case (Inl e)
  with assms(1) show ?thesis
    by (cases e) (auto simp: NilDeref_def reading_def nil_only_def near_reply_def good_write)
qed (use assms(2) in \<open>simp add: reading_def\<close>)

lemma near_bad_request [near_intros]:
  "(\<And>x. r = Inr x \<Longrightarrow> near_reply (k x)) \<Longrightarrow> near_reply (bad_request r m k)"
  by (auto simp: bad_request_def intro: near_write split: sum.split)

lemma near_nil: "near_reply (Inl NilDeref)"
  by (simp add: near_reply_def)

lemma near_marshal [near_intros]:
  "(\<And>j. near_reply (k j)) \<Longrightarrow> near_reply (bindE (marshalList g us) k)"
  using marshalList_known [of g us] marshalList_unknown [of g us] near_nil by (metis bindE_Inl bindE_Inr)

lemma near_marshal_one [near_intros]:
  "(\<And>j. near_reply (k j)) \<Longrightarrow> near_reply (bindE (marshalUTXO g u) k)"
  using marshalUTXO_known [of g u] marshalUTXO_unknown [of g u] near_nil by (metis bindE_Inl bindE_Inr)

lemma nil_only_Inr [simp]: "nil_only (Inr x)"
  by (simp add: nil_only_def)

lemma nil_only_bind: "nil_only r \<Longrightarrow> (\<And>x. r = Inr x \<Longrightarrow> nil_only (k x)) \<Longrightarrow> nil_only (bindE r k)"
  by (cases r) (auto simp: nil_only_def)

lemma nil_only_fold: "(\<And>x s. nil_only (f x s)) \<Longrightarrow> nil_only (foldE f xs s)"
  by (induction xs arbitrary: s) (auto intro: nil_only_bind)

lemma nil_only_value: "(\<And>v. nil_only (k v)) \<Longrightarrow> nil_only (bindE (value_of g d) k)"
  by (auto simp: value_of_def nil_only_def NilDeref_def split: option.split)

lemma nil_only_adds:
  "nil_only (foldE (add_unspent g tip) rows b)" "nil_only (foldE (add_trimmed g) trows b)"
  "nil_only (foldE (add_value g) trows st)"
  by (auto simp: add_unspent_def add_trimmed_def add_value_def Let_def intro!: nil_only_fold nil_only_value
      split: prod.split)

lemma nil_only_query_row: "plain_answer (snap k) \<Longrightarrow> nil_only (query_row snap k f)"
  by (auto simp: query_row_def plain_answer_def nil_only_def split: answer.splits)

lemma nil_only_query:
  assumes "plain_answer (snap k)"
  shows "nil_only (query snap k args f)"
proof (cases "bigint_args args")
  case (Inr u)
  with assms show ?thesis by (cases "snap k") (simp_all add: query_def bigint_args_def nil_only_def plain_answer_def)
qed (auto simp: query_def bigint_args_def nil_only_def BigintRange_def split: if_splits)

lemma query_plain_rest:
  assumes "plain_answer (snap k)" "query snap k args f = Inr (rs, e)"
  shows "nil_only (rows_Err e x)"
  using assms
  by (cases "snap k") (auto simp: query_def bindE_eq_Inr plain_answer_def nil_only_def rows_Err_def)

lemma nil_only_read: "plain_answer (snap k) \<Longrightarrow> nil_only (bindE (query snap k args f) scanUTXOs)"
  by (rule nil_only_bind [OF nil_only_query]) (auto simp: scanUTXOs_def intro: query_plain_rest)

lemma nil_only_wrap: "nil_only (wrapE m r)"
  by (simp add: nil_only_def wrapE_def split: sum.split)

lemma nil_only_wrap_read: "plain_answer (snap k) \<Longrightarrow> nil_only (bindE (wrapE m (query snap k args f)) scanUTXOs)"
  by (rule nil_only_bind [OF nil_only_wrap]) (auto simp: scanUTXOs_def intro: query_plain_rest)

lemma nil_only_reads:
  assumes "\<And>k. plain_answer (snap k)"
  shows "nil_only (GetUTXO snap h i)" "nil_only (GetAddressUTXOs snap a)" "nil_only (GetAddressHistory snap a c l)"
    "nil_only (GetAddressBalance g snap a tip)" "nil_only (GetBlockUTXOEvents snap h')" "nil_only (GetStats g snap)"
    "nil_only (GetTx snap th)" "nil_only (GetOutpointsByAddresses snap as)" "nil_only (reader_Tip snap k)"
proof -
  note q = nil_only_query [of snap, OF assms] and r = nil_only_query_row [of snap, OF assms]
    and rd = nil_only_read [of snap, OF assms] and rest = query_plain_rest [of snap, OF assms]
  show "nil_only (GetUTXO snap h i)" "nil_only (reader_Tip snap k)"
    by (simp_all add: GetUTXO_def reader_Tip_def r)
  show "nil_only (GetAddressUTXOs snap a)" "nil_only (GetAddressHistory snap a c l)"
    by (simp_all add: GetAddressUTXOs_def GetAddressHistory_def rd)
  show "nil_only (GetTx snap th)" "nil_only (GetOutpointsByAddresses snap as)"
    by (auto simp: GetTx_def GetOutpointsByAddresses_def Let_def intro!: nil_only_bind [OF rd])
  show "nil_only (GetBlockUTXOEvents snap h')"
    by (auto simp: GetBlockUTXOEvents_def intro!: nil_only_bind [OF nil_only_wrap_read [of snap, OF assms]])
  show "nil_only (GetStats g snap)"
    unfolding GetStats_def
    by (auto intro!: nil_only_bind [OF r] nil_only_bind [OF q] nil_only_bind [OF nil_only_bind [OF nil_only_adds(3)]]
        intro: rest)
  show "nil_only (GetAddressBalance g snap a tip)"
    unfolding GetAddressBalance_def
    by (auto intro!: nil_only_bind [OF q] nil_only_bind [OF nil_only_adds(1)] nil_only_bind [OF nil_only_adds(2)]
        nil_only_bind [OF rest] intro: rest)
qed

lemma near_handlers:
  assumes "\<And>k. plain_answer (snap k)"
  shows "near_reply (handleTip snap)" "near_reply (handleGetUTXO g snap p q)"
    "near_reply (handleAddressUTXOs g snap p)" "near_reply (handleAddressBalance g snap p)"
    "near_reply (handleBlockUTXOs g snap p)" "near_reply (handleStats g snap)"
    "near_reply (handleGetTx g snap p)" "near_reply (handleOutpoints snap body)"
proof -
  note n = nil_only_reads [of snap, OF assms] and n1 = nil_only_reads(4) [of "later 1 snap"]
  have later: "plain_answer (later 1 snap k)" for k using assms by (simp add: later_def)
  show "near_reply (handleTip snap)"
    unfolding handleTip_def by (intro near_intros n) (auto intro: near_intros split: option.split)
  show "near_reply (handleGetUTXO g snap p q)"
    unfolding handleGetUTXO_def by (intro near_intros n) (auto intro!: near_intros split: option.split)
  show "near_reply (handleAddressUTXOs g snap p)" "near_reply (handleBlockUTXOs g snap p)"
      "near_reply (handleStats g snap)"
    unfolding handleAddressUTXOs_def handleBlockUTXOs_def handleStats_def by (intro near_intros n)+
  show "near_reply (handleAddressBalance g snap p)"
    unfolding handleAddressBalance_def by (intro near_intros n n1 later)
  show "near_reply (handleGetTx g snap p)"
    unfolding handleGetTx_def by (intro near_intros n) (auto intro!: near_intros split: prod.split)
  show "near_reply (handleOutpoints snap body)"
    unfolding handleOutpoints_def by (intro near_intros) (auto intro!: near_intros n split: sum.split)
qed

lemma near_history:
  assumes "\<And>k. plain_answer (snap k)"
  shows "near_reply (handleAddressHistory g snap p ql qb) \<or>
    query_limit ql = 0 \<and> handleAddressHistory g snap p ql qb = Inl EmptyPage"
proof (cases "query_limit ql = 0")
  case False
  then have "near_reply (bindE (next_cursor us (query_limit ql)) (\<lambda>nc. writeJSON 200 (j nc)))" for us j
    using next_cursor_total [OF False, of us] by (auto intro: near_intros)
  then have "near_reply (handleAddressHistory g snap p ql qb)"
    unfolding handleAddressHistory_def Let_def by (intro near_intros nil_only_reads(3) [of snap, OF assms])
  then show ?thesis ..
next
  case True
  show ?thesis
  proof (cases "\<exists>addr c us. api_decodeHex p = Inr addr \<and> query_cursor qb = Inr c \<and> GetAddressHistory snap addr c 0 = Inr us")
    case False
    then have "near_reply (handleAddressHistory g snap p ql qb)"
      unfolding handleAddressHistory_def Let_def True by (intro near_intros nil_only_reads(3) [of snap, OF assms]) blast
    then show ?thesis ..
  next
    case good: True
    then obtain addr c us where h: "api_decodeHex p = Inr addr" "query_cursor qb = Inr c"
      "GetAddressHistory snap addr c 0 = Inr us" by blast
    show ?thesis
      using marshalList_known [of g us] marshalList_unknown [of g us] True h
      by (cases "known_utxos g us")
        (auto simp: handleAddressHistory_def bad_request_def reading_def next_cursor_def EmptyPage_def near_reply_def
          intro: reply_intros)
  qed
qed

definition answered :: "request \<Rightarrow> reply \<Rightarrow> bool" where
  "answered r rep \<longleftrightarrow> good_reply rep \<or> query_limit (r_Limit r) = 0 \<and> rep = Inl EmptyPage"

lemma good_serve:
  assumes "snaps_ok g snap" "serve g snap r = Reply rep"
  shows "answered r rep"
proof -
  have "answered r (handleAddressHistory g snap p (r_Limit r) (r_Before r))" for p
    using good_handlers(9) [OF assms(1)] history_zero_limit [OF assms(1)]
    unfolding answered_def by (cases "query_limit (r_Limit r) = 0") blast+
  moreover have "answered r x" if "good_reply x" for x using that by (simp add: answered_def)
  ultimately show ?thesis
    using assms(2) good_handlers(1-8) [OF assms(1)]
    by (auto simp: serve_def cors_def route_def get_only_def split: if_splits list.splits)
qed

definition nearly_answered :: "request \<Rightarrow> reply \<Rightarrow> bool" where
  "nearly_answered r rep \<longleftrightarrow> answered r rep \<or> rep = Inl NilDeref"

lemma near_serve:
  assumes "\<And>k. plain_answer (snap k)" "serve g snap r = Reply rep"
  shows "nearly_answered r rep"
proof -
  have "nearly_answered r (handleAddressHistory g snap p (r_Limit r) (r_Before r))" for p
    using near_history [of snap g p "r_Limit r" "r_Before r", OF assms(1)]
    by (auto simp: nearly_answered_def answered_def near_reply_def)
  moreover have "nearly_answered r x" if "near_reply x" for x
    using that by (auto simp: nearly_answered_def answered_def near_reply_def)
  note n = near_handlers [of snap, OF assms(1), THEN this]
  ultimately show ?thesis
    using assms(2) n by (auto simp: serve_def cors_def route_def get_only_def split: if_splits list.splits)
qed

section \<open>Properties\<close>

text \<open>
  C9: Following the cursors crawls the whole history. On a well-formed table that does not change
  meanwhile, a client that asks for pages of any size from 1 to 200 and follows \<open>next_cursor\<close> until
  it is empty gets every row of the address exactly once, newest first, after at most as many
  requests as there are rows, plus one.
\<close>

theorem history_crawl_complete:
  assumes "snap 0 = Shows d" "db_ok d" "0 < n" "n \<le> 200"
  shows "crawl (history_reply snap addr (int n)) (Suc (length (history_list addr d))) [] =
    Inr (scan_rows (history_list addr d))"
  using crawl_at [where snap = snap and d = d and n = n and addr = addr and i = 0
      and fuel = "Suc (length (history_list addr d))"] assms
  by (simp add: cursor_at_def del: crawl.simps)

theorem history_crawl_complete_witness:
  "crawl (history_reply (\<lambda>_. Shows ex_db1) (replicate 20 0x80) 2) 4 [] =
     Inr (scan_rows (history_list (replicate 20 0x80) ex_db1))"
proof -
  have len: "Suc (length (history_list (replicate 20 0x80) ex_db1)) = 4"
    by (simp add: history_list_def ex_db1_rows ex_row_def new_utxo_def)
  have "crawl (history_reply (\<lambda>_. Shows ex_db1) (replicate 20 0x80) (int 2))
      (Suc (length (history_list (replicate 20 0x80) ex_db1))) [] =
    Inr (scan_rows (history_list (replicate 20 0x80) ex_db1))"
    by (rule history_crawl_complete) (simp_all add: ex_db1_ok(1))
  then show ?thesis unfolding len by (simp only: of_nat_numeral)
qed

text \<open>
  C23: Every request is answered. Whatever the method, path, parameters and body, whatever the tables
  hold, and whatever query fails with an error value, a request that reaches a handler gets a JSON
  reply with status 200, 400, 404 or 500, or panics in one of two ways: a history request with the limit
  zero reads the last row of an empty page, and a stored denomination that go-quai does not know has
  no value to print or to sum.
\<close>

theorem serve_answers:
  assumes "\<And>k. plain_answer (snap k)" "serve g snap r = Reply rep"
  shows "(\<exists>status j. rep = Inr (status, j) \<and> status \<in> {200, 400, 404, 500}) \<or>
    (query_limit (r_Limit r) = 0 \<and> rep = Inl (Panic ''index out of range [-1]'')) \<or>
    ((\<exists>k. unknown_answer g (snap k)) \<and> rep = Inl NilDeref)"
proof (cases "\<exists>k. unknown_answer g (snap k)")
  case True
  with near_serve [of snap, OF assms] show ?thesis by (auto simp: nearly_answered_def answered_def good_reply_def EmptyPage_def)
next
  case False
  with assms(1) have "snaps_ok g snap" by (simp add: snaps_ok_def answer_ok_iff)
  from good_serve [OF this assms(2)] show ?thesis by (auto simp: answered_def good_reply_def EmptyPage_def)
qed

definition ex_request :: request where
  "ex_request = \<lparr>r_Method = GET, r_Path = [''address'', ''0x80'', ''history''], r_Limit = ''5'',
     r_Before = ''1:'', r_Body = None\<rparr>"

theorem serve_answers_witness:
  "\<exists>rep status j. serve ex_goquai (\<lambda>_. Shows ex_db1) ex_request = Reply rep \<and> rep = Inr (status, j) \<and>
     status \<in> {200, 400, 404, 500}"
proof -
  obtain rep where rep: "serve ex_goquai (\<lambda>_. Shows ex_db1) ex_request = Reply rep"
    by (simp add: serve_def cors_def route_def get_only_def ex_request_def)
  have "query_limit (r_Limit ex_request) \<noteq> 0"
    by (simp add: ex_request_def query_limit_def res_of_def ParseInt_def ParseUint_def digit_val_def)
  with serve_answers [OF _ rep] ex_db1_known rep show ?thesis by (simp add: plain_answer_def unknown_answer_def)
qed

text \<open>
  C39: A limit above 200 or below 0 cuts the history short. The store falls back to 50 rows for it, the
  handler compares the page with the limit it was given: when more than 50 rows exist it returns 50
  of them with an empty \<open>next_cursor\<close>, so a client that follows the cursors stops there.
\<close>

theorem history_wide_limit_truncates:
  assumes "snap 0 = Shows d" "n < 0 \<or> 200 < n" "50 < length (history_list addr d)"
  shows "crawl (history_reply snap addr n) fuel [] = (if fuel = 0 then Inl (Msg ''too many pages'')
    else Inr (scan_rows (take 50 (history_list addr d))))"
proof -
  have "history_limit n = 50" using assms(2) by (auto simp: history_limit_def)
  then have "history_reply snap addr n [] = Inr (scan_rows (take 50 (history_list addr d)), [])"
    using history_first_page [where snap = snap and d = d and addr = addr and limit = n] assms
    by (auto simp: history_reply_def query_cursor_def next_cursor_def scan_rows_def)
  then show ?thesis by (cases fuel) simp_all
qed

definition ex_many :: db where
  "ex_many = empty_db\<lparr>t_utxos := map (\<lambda>i. ex_row 0xA1 (word_of_nat i) 0 0 SourceQiTx 1) [0..<60]\<rparr>"

theorem history_wide_limit_truncates_witness:
  "crawl (history_reply (\<lambda>_. Shows ex_many) (replicate 20 0x80) 201) 5 [] =
     Inr (scan_rows (take 50 (history_list (replicate 20 0x80) ex_many)))"
proof -
  have "filter (\<lambda>r. address r = replicate 20 0x80) (t_utxos ex_many) = t_utxos ex_many"
    by (simp add: ex_many_def ex_row_def new_utxo_def filter_id_conv)
  then have "length (history_list (replicate 20 0x80) ex_many) = 60"
    unfolding history_list_def by (simp add: ex_many_def)
  with history_wide_limit_truncates [of "\<lambda>_. Shows ex_many" ex_many 201 "replicate 20 0x80" 5]
  show ?thesis by simp
qed

end
