(* ===== verification/WsHub.thy ===== *)
theory WsHub
  imports GoJson "HOL-Library.Sublist"
begin

text \<open>
  \<open>internal/api/ws.go\<close>: the hub that fans payloads out to the WebSocket clients. The state is the
  hub's set of registered clients and, per client, its buffered channel \<open>send\<close>, what was written to
  its connection, and whether its connection and its \<open>writePump\<close> are still up. \<open>hub_step\<close> has one
  rule per thing that can happen: a client connects (\<open>ServeHTTP\<close>), a payload is broadcast, the
  write pump writes a message, a write or a ping fails, the read pump ends. \<open>hub_run\<close> is any
  sequence of them from the empty hub; it also logs, per client, the payloads broadcast while the
  client was registered.
\<close>

record ws_client =
  send :: "json list"
  wire :: "json list"
  conn_open :: bool
  pumping :: bool
  dropped :: nat

record hub =
  registered :: "nat set"
  clients :: "nat \<Rightarrow> ws_client option"

definition send_capacity :: nat where "send_capacity = 64"

definition newHub :: hub where
  "newHub = \<lparr>registered = {}, clients = (\<lambda>_. None)\<rparr>"

definition new_client :: ws_client where
  "new_client = \<lparr>send = [], wire = [], conn_open = True, pumping = True, dropped = 0\<rparr>"

text \<open>The \<open>select\<close> of \<open>Broadcast\<close>: send if the buffer has room, else warn.\<close>

definition offer :: "json \<Rightarrow> ws_client \<Rightarrow> ws_client" where
  "offer payload c =
     (if length (send c) < send_capacity then c\<lparr>send := send c @ [payload]\<rparr>
      else c\<lparr>dropped := dropped c + 1\<rparr>)"

definition hub_Broadcast :: "json \<Rightarrow> hub \<Rightarrow> hub" where
  "hub_Broadcast payload h =
     h\<lparr>clients := (\<lambda>i. if i \<in> registered h then map_option (offer payload) (clients h i) else clients h i)\<rparr>"

definition hub_add :: "nat \<Rightarrow> hub \<Rightarrow> hub" where
  "hub_add i h = h\<lparr>registered := insert i (registered h), clients := (clients h)(i \<mapsto> new_client)\<rparr>"

definition set_client :: "nat \<Rightarrow> ws_client \<Rightarrow> hub \<Rightarrow> hub" where
  "set_client i c h = h\<lparr>clients := (clients h)(i \<mapsto> c)\<rparr>"

definition hub_remove :: "nat \<Rightarrow> hub \<Rightarrow> hub" where
  "hub_remove i h =
     h\<lparr>registered := registered h - {i},
       clients := (clients h)(i := map_option (\<lambda>c. c\<lparr>conn_open := False\<rparr>) (clients h i))\<rparr>"

text \<open>One message by the write pump: written, or the write fails and the pump closes the connection.\<close>

definition pump_write :: "bool \<Rightarrow> ws_client \<Rightarrow> ws_client option" where
  "pump_write ok c =
     (case send c of
        [] \<Rightarrow> None
      | m # q \<Rightarrow>
          if ok \<and> conn_open c then Some (c\<lparr>send := q, wire := wire c @ [m]\<rparr>)
          else Some (c\<lparr>send := q, pumping := False, conn_open := False\<rparr>))"

inductive hub_step :: "hub \<Rightarrow> (nat \<Rightarrow> json list) \<Rightarrow> hub \<Rightarrow> (nat \<Rightarrow> json list) \<Rightarrow> bool" where
  connect: "clients h i = None \<Longrightarrow> hub_step h log (hub_add i h) (log(i := []))"
| broadcast: "hub_step h log (hub_Broadcast p h)
    (\<lambda>i. if i \<in> registered h then log i @ [p] else log i)"
| pump: "clients h i = Some c \<Longrightarrow> pumping c \<Longrightarrow> pump_write ok c = Some c' \<Longrightarrow>
    hub_step h log (set_client i c' h) log"
| ping_failed: "clients h i = Some c \<Longrightarrow> pumping c \<Longrightarrow>
    hub_step h log (set_client i (c\<lparr>pumping := False, conn_open := False\<rparr>) h) log"
| read_ended: "i \<in> registered h \<Longrightarrow> hub_step h log (hub_remove i h) log"

inductive hub_run :: "hub \<Rightarrow> (nat \<Rightarrow> json list) \<Rightarrow> bool" where
  start: "hub_run newHub (\<lambda>_. [])"
| step: "hub_run h log \<Longrightarrow> hub_step h log h' log' \<Longrightarrow> hub_run h' log'"

inductive_cases hub_stepE: "hub_step h log h' log'"

section \<open>The invariant\<close>

text \<open>
  Per client: the buffer never exceeds its capacity; what was written and what waits is, in order,
  part of what was broadcast while it was registered; and all of it if nothing was dropped and no
  write failed.
\<close>

definition client_ok :: "json list \<Rightarrow> ws_client \<Rightarrow> bool" where
  "client_ok l c \<longleftrightarrow>
     length (send c) \<le> send_capacity \<and> subseq (wire c @ send c) l \<and>
     (pumping c \<and> dropped c = 0 \<longrightarrow> wire c @ send c = l)"

definition hub_ok :: "hub \<Rightarrow> (nat \<Rightarrow> json list) \<Rightarrow> bool" where
  "hub_ok h log \<longleftrightarrow> (\<forall>i c. clients h i = Some c \<longrightarrow> client_ok (log i) c)"

lemma client_ok_offer:
  assumes "client_ok l c"
  shows "client_ok (l @ [p]) (offer p c)"
proof -
  have sub: "subseq (wire c @ send c) l" using assms by (simp add: client_ok_def)
  have "subseq ((wire c @ send c) @ [p]) (l @ [p])"
    by (rule list_emb_append_mono [OF sub subseq_order.refl])
  moreover have "subseq (wire c @ send c) (l @ [p])"
    using list_emb_append_mono [OF sub list_emb_Nil, of "[p]"] by simp
  ultimately show ?thesis using assms by (auto simp: client_ok_def offer_def)
qed

lemma client_ok_pump: "client_ok l c \<Longrightarrow> pump_write ok c = Some c' \<Longrightarrow> client_ok l c'"
proof -
  assume c: "client_ok l c" and p: "pump_write ok c = Some c'"
  then obtain m q where q: "send c = m # q" by (auto simp: pump_write_def split: list.splits)
  have "subseq (wire c @ q) (wire c @ m # q)" by (simp add: list_emb_append_mono subseq_Cons')
  then have "subseq (wire c @ q) l" using c q by (auto simp: client_ok_def)
  with c p q show ?thesis
    by (auto simp: client_ok_def pump_write_def split: if_splits)
qed

lemma hub_step_ok: "hub_step h log h' log' \<Longrightarrow> hub_ok h log \<Longrightarrow> hub_ok h' log'"
proof (induction rule: hub_step.induct)
  case (connect h i log)
  then show ?case by (auto simp: hub_ok_def hub_add_def client_ok_def new_client_def)
next
  case (broadcast h log p)
  then show ?case by (auto simp: hub_ok_def hub_Broadcast_def intro: client_ok_offer split: if_splits)
next
  case (pump h i c ok c' log)
  then show ?case by (auto simp: hub_ok_def set_client_def intro: client_ok_pump)
next
  case (ping_failed h i c log)
  then show ?case by (auto simp: hub_ok_def set_client_def client_ok_def)
next
  case (read_ended i h log)
  then show ?case by (auto simp: hub_ok_def hub_remove_def client_ok_def split: if_splits)
qed

lemma hub_run_ok: "hub_run h log \<Longrightarrow> hub_ok h log"
proof (induction rule: hub_run.induct)
  case start
  then show ?case by (simp add: hub_ok_def newHub_def)
next
  case (step h log h' log')
  then show ?case by (blast intro: hub_step_ok)
qed

text \<open>A full buffer loses the message, not the client: it stays registered.\<close>

lemma broadcast_keeps_clients: "registered (hub_Broadcast p h) = registered h"
  by (simp add: hub_Broadcast_def)

section \<open>Property\<close>

text \<open>
  C16: The hub delivers in order and within its buffers. In every reachable state, each client's buffer
  holds at most 64 messages; what was written to its connection, followed by what waits, is in order
  part of what was broadcast since it connected; and a client whose pump is up and that had no
  message dropped has lost nothing of it.
\<close>

theorem hub_delivers_in_order:
  assumes "hub_run h log" "clients h i = Some c"
  shows "length (send c) \<le> 64 \<and> subseq (wire c @ send c) (log i) \<and>
    (pumping c \<and> dropped c = 0 \<longrightarrow> wire c @ send c = log i)"
  using hub_run_ok [OF assms(1)] assms(2) by (simp add: hub_ok_def client_ok_def send_capacity_def)

theorem hub_delivers_in_order_witness:
  "\<exists>h log c. hub_run h log \<and> clients h 7 = Some c \<and> wire c = [JNull] \<and> subseq (wire c @ send c) (log 7)"
proof -
  let ?h1 = "hub_add 7 newHub" and ?c1 = "new_client\<lparr>send := [JNull]\<rparr>"
  let ?h2 = "hub_Broadcast JNull ?h1" and ?l1 = "(\<lambda>_. [])(7 := [])"
  let ?l2 = "\<lambda>i. if i \<in> registered ?h1 then ?l1 i @ [JNull] else ?l1 i"
  let ?c2 = "?c1\<lparr>send := [], wire := [JNull]\<rparr>"
  have "hub_run ?h1 ?l1"
    by (rule hub_run.step [OF hub_run.start hub_step.connect]) (simp add: newHub_def)
  from hub_run.step [OF this hub_step.broadcast] have r2: "hub_run ?h2 ?l2" .
  have "clients ?h2 7 = Some ?c1"
    by (simp add: hub_Broadcast_def hub_add_def offer_def new_client_def send_capacity_def)
  from hub_run.step [OF r2 hub_step.pump [OF this, of True ?c2]]
  have r3: "hub_run (set_client 7 ?c2 ?h2) ?l2" by (simp add: pump_write_def new_client_def)
  have c: "clients (set_client 7 ?c2 ?h2) 7 = Some ?c2" by (simp add: set_client_def)
  from hub_delivers_in_order [OF r3 c] r3 c show ?thesis by fastforce
qed

end
