(* ===== verification/GoFlag.thy ===== *)
theory GoFlag
  imports GoStd
begin

text \<open>
  What the commands use of Go's \<open>flag\<close>, \<open>time\<close> and the lenient half of \<open>strconv\<close>: \<open>ParseBool\<close>,
  \<open>Atoi\<close>, \<open>ParseInt\<close> with base 0, \<open>time.ParseDuration\<close>, and a flag set with \<open>ExitOnError\<close>.
  \<open>ParseDuration\<close> adds the fraction of a number in floating point; that one product,
  \<open>float64(f) * (float64(unit) / scale)\<close> truncated, is the parameter \<open>frac\<close>.
\<close>

section \<open>Booleans and integers\<close>

definition ParseBool :: "string \<Rightarrow> err + bool" where
  "ParseBool s =
     (if s \<in> {''1'', ''t'', ''T'', ''TRUE'', ''true'', ''True''} then Inr True
      else if s \<in> {''0'', ''f'', ''F'', ''FALSE'', ''false'', ''False''} then Inr False
      else Inl ErrSyntax)"

definition Atoi :: "string \<Rightarrow> err + int" where
  "Atoi s = res_of (ParseInt s 10 64)"

text \<open>Base 0: the prefix chooses the base, and single underscores may stand between digits.\<close>

fun underscore_scan :: "bool \<Rightarrow> char \<Rightarrow> string \<Rightarrow> bool" where
  "underscore_scan hex i [] = (i \<noteq> CHR ''_'')"
| "underscore_scan hex i (c # s) =
     (if (case digit_val c of None \<Rightarrow> False | Some d \<Rightarrow> d < (if hex then 16 else 10))
      then underscore_scan hex (CHR ''0'') s
      else if c = CHR ''_'' then i = CHR ''0'' \<and> underscore_scan hex (CHR ''_'') s
      else i \<noteq> CHR ''_'' \<and> underscore_scan hex (CHR ''!'') s)"

definition base_prefix :: "string \<Rightarrow> nat \<times> string" where
  "base_prefix s =
     (case s of
        c # d # e # r \<Rightarrow>
          if c = CHR ''0'' \<and> (d = CHR ''b'' \<or> d = CHR ''B'') then (2, e # r)
          else if c = CHR ''0'' \<and> (d = CHR ''o'' \<or> d = CHR ''O'') then (8, e # r)
          else if c = CHR ''0'' \<and> (d = CHR ''x'' \<or> d = CHR ''X'') then (16, e # r)
          else if c = CHR ''0'' then (8, d # e # r) else (10, s)
      | c # r \<Rightarrow> if c = CHR ''0'' then (8, r) else (10, s)
      | [] \<Rightarrow> (10, s))"

definition underscoreOK :: "string \<Rightarrow> bool" where
  "underscoreOK s =
     (case s of
        c # d # r \<Rightarrow>
          if c = CHR ''0'' \<and> d \<in> set ''bBoOxX'' then underscore_scan (d \<in> set ''xX'') (CHR ''0'') r
          else underscore_scan False (CHR ''^'') s
      | _ \<Rightarrow> underscore_scan False (CHR ''^'') s)"

definition ParseUint0 :: "string \<Rightarrow> nat \<Rightarrow> nat \<times> err option" where
  "ParseUint0 s bits =
     (if s = [] then (0, Some ErrSyntax)
      else (case base_prefix s of
         (base, body) \<Rightarrow>
           (case parse_digits base (2 ^ bits - 1) (filter (\<lambda>c. c \<noteq> CHR ''_'') body) 0 of
              (n, Some e) \<Rightarrow> (n, Some e)
            | (n, None) \<Rightarrow>
                if CHR ''_'' \<in> set body \<and> \<not> underscoreOK s then (0, Some ErrSyntax) else (n, None))))"

definition ParseInt0 :: "string \<Rightarrow> err + int" where
  "ParseInt0 s =
     (if s = [] then Inl ErrSyntax
      else
        let neg = (hd s = CHR ''-'');
            t = (if hd s = CHR ''+'' \<or> neg then tl s else s)
        in case ParseUint0 t 64 of
             (un, Some e) \<Rightarrow> Inl e
           | (un, None) \<Rightarrow>
               if \<not> neg \<and> 2 ^ 63 \<le> un then Inl ErrRange
               else if neg \<and> 2 ^ 63 < un then Inl ErrRange
               else Inr (if neg then - int un else int un))"

section \<open>Durations\<close>

definition dec_digit :: "char \<Rightarrow> bool" where
  "dec_digit c \<longleftrightarrow> 48 \<le> (of_char c :: nat) \<and> (of_char c :: nat) \<le> 57"

definition dec_val :: "char \<Rightarrow> nat" where
  "dec_val c = of_char c - 48"

fun leadingInt :: "nat \<Rightarrow> string \<Rightarrow> (nat \<times> string) option" where
  "leadingInt x [] = Some (x, [])"
| "leadingInt x (c # s) =
     (if \<not> dec_digit c then Some (x, c # s)
      else if 2 ^ 63 div 10 < x then None
      else if 2 ^ 63 < x * 10 + dec_val c then None
      else leadingInt (x * 10 + dec_val c) s)"

fun leadingFraction :: "bool \<Rightarrow> nat \<Rightarrow> nat \<Rightarrow> string \<Rightarrow> nat \<times> nat \<times> string" where
  "leadingFraction ovf x scale [] = (x, scale, [])"
| "leadingFraction ovf x scale (c # s) =
     (if \<not> dec_digit c then (x, scale, c # s)
      else if ovf \<or> (2 ^ 63 - 1) div 10 < x \<or> 2 ^ 63 < x * 10 + dec_val c
      then leadingFraction True x scale s
      else leadingFraction False (x * 10 + dec_val c) (scale * 10) s)"

definition unitMap :: "string \<Rightarrow> nat option" where
  "unitMap u =
     (if u = ''ns'' then Some 1
      else if u = ''us'' \<or> u = [CHR 0xC2, CHR 0xB5, CHR ''s''] \<or> u = [CHR 0xCE, CHR 0xBC, CHR ''s'']
      then Some 1000
      else if u = ''ms'' then Some 1000000
      else if u = ''s'' then Some 1000000000
      else if u = ''m'' then Some 60000000000
      else if u = ''h'' then Some 3600000000000
      else None)"

definition ErrDuration :: err where
  "ErrDuration = Ext ''time: invalid duration''"

text \<open>One number with its unit: the value it adds and what is left.\<close>

definition duration_part :: "(nat \<Rightarrow> nat \<Rightarrow> nat \<Rightarrow> nat) \<Rightarrow> string \<Rightarrow> (nat \<times> string) option" where
  "duration_part frac s =
     (if \<not> (hd s = CHR ''.'' \<or> dec_digit (hd s)) then None
      else case leadingInt 0 s of
        None \<Rightarrow> None
      | Some (v, s1) \<Rightarrow>
          let (f, scale, s2) =
                (if s1 \<noteq> [] \<and> hd s1 = CHR ''.'' then leadingFraction False 0 1 (tl s1) else (0, 1, s1));
              pre = (length s1 \<noteq> length s);
              post = (s1 \<noteq> [] \<and> hd s1 = CHR ''.'' \<and> length s2 \<noteq> length (tl s1));
              u = takeWhile (\<lambda>c. \<not> (c = CHR ''.'' \<or> dec_digit c)) s2;
              s3 = dropWhile (\<lambda>c. \<not> (c = CHR ''.'' \<or> dec_digit c)) s2
          in if \<not> pre \<and> \<not> post then None
             else (case unitMap u of
                None \<Rightarrow> None
              | Some unit \<Rightarrow>
                  if 2 ^ 63 div unit < v then None
                  else
                    let w = (if 0 < f then (v * unit + frac f unit scale) mod 2 ^ 64 else v * unit)
                    in if 0 < f \<and> 2 ^ 63 < w then None else Some (w, s3)))"

text \<open>Each part takes at least one character, so the length of the text is enough fuel.\<close>

fun duration_loop :: "(nat \<Rightarrow> nat \<Rightarrow> nat \<Rightarrow> nat) \<Rightarrow> nat \<Rightarrow> nat \<Rightarrow> string \<Rightarrow> nat option" where
  "duration_loop frac n d [] = Some d"
| "duration_loop frac 0 d (c # s) = None"
| "duration_loop frac (Suc n) d (c # s) =
     (case duration_part frac (c # s) of
        None \<Rightarrow> None
      | Some (v, s') \<Rightarrow>
          if 2 ^ 63 < (d + v) mod 2 ^ 64 then None else duration_loop frac n ((d + v) mod 2 ^ 64) s')"

definition ParseDuration :: "(nat \<Rightarrow> nat \<Rightarrow> nat \<Rightarrow> nat) \<Rightarrow> string \<Rightarrow> err + int" where
  "ParseDuration frac str =
     (let neg = (str \<noteq> [] \<and> hd str = CHR ''-'');
          s = (if str \<noteq> [] \<and> (hd str = CHR ''-'' \<or> hd str = CHR ''+'') then tl str else str)
      in if s = ''0'' then Inr 0
         else if s = [] then Inl ErrDuration
         else case duration_loop frac (length s) 0 s of
           None \<Rightarrow> Inl ErrDuration
         | Some d \<Rightarrow>
             if neg then Inr (- int d)
             else if 2 ^ 63 - 1 < d then Inl ErrDuration
             else Inr (int d))"

section \<open>Flag sets\<close>

datatype flag_kind = StringFlag | IntFlag | Uint64Flag | BoolFlag | DurationFlag

datatype flag_val = StrVal string | IntVal int | UintVal u64 | BoolVal bool | DurVal int

fun flag_Set :: "(nat \<Rightarrow> nat \<Rightarrow> nat \<Rightarrow> nat) \<Rightarrow> flag_kind \<Rightarrow> string \<Rightarrow> err + flag_val" where
  "flag_Set frac StringFlag s = Inr (StrVal s)"
| "flag_Set frac IntFlag s = bindE (ParseInt0 s) (\<lambda>n. Inr (IntVal n))"
| "flag_Set frac Uint64Flag s =
     (case ParseUint0 s 64 of (n, Some e) \<Rightarrow> Inl e | (n, None) \<Rightarrow> Inr (UintVal (word_of_nat n)))"
| "flag_Set frac BoolFlag s = bindE (ParseBool s) (\<lambda>b. Inr (BoolVal b))"
| "flag_Set frac DurationFlag s = bindE (ParseDuration frac s) (\<lambda>n. Inr (DurVal n))"

text \<open>The text of a flag argument: its name and, after the first \<open>=\<close> behind the first character, a value.\<close>

definition flag_name :: "string \<Rightarrow> string \<times> string option" where
  "flag_name arg =
     (case arg of
        [] \<Rightarrow> ([], None)
      | c # r \<Rightarrow>
          (case dropWhile (\<lambda>c. c \<noteq> CHR ''='') r of
             [] \<Rightarrow> (arg, None)
           | _ # v \<Rightarrow> (c # takeWhile (\<lambda>c. c \<noteq> CHR ''='') r, Some v)))"

text \<open>
  \<open>flag_Parse\<close> reads the arguments left to right; \<open>Inl\<close> is the status the process exits with
  (0 for \<open>-help\<close>, 2 for an error). \<open>actual\<close> are the flags set so far.
\<close>

fun flag_Parse ::
  "(nat \<Rightarrow> nat \<Rightarrow> nat \<Rightarrow> nat) \<Rightarrow> (string \<rightharpoonup> flag_kind) \<Rightarrow> (string \<rightharpoonup> flag_val) \<Rightarrow> string list \<Rightarrow>
   nat + (string \<rightharpoonup> flag_val)" where
  "flag_Parse frac formal actual [] = Inr actual"
| "flag_Parse frac formal actual (s # args) =
     (if length s < 2 \<or> hd s \<noteq> CHR ''-'' then Inr actual
      else if s = ''--'' then Inr actual
      else
        let body = (if s ! 1 = CHR ''-'' then drop 2 s else drop 1 s) in
        if body = [] \<or> hd body = CHR ''-'' \<or> hd body = CHR ''='' then Inl 2
        else (case flag_name body of
          (name, value) \<Rightarrow>
            (case formal name of
               None \<Rightarrow> if name = ''help'' \<or> name = ''h'' then Inl 0 else Inl 2
             | Some BoolFlag \<Rightarrow>
                 (case flag_Set frac BoolFlag (case value of None \<Rightarrow> ''true'' | Some v \<Rightarrow> v) of
                    Inl e \<Rightarrow> Inl 2
                  | Inr x \<Rightarrow> flag_Parse frac formal (actual(name \<mapsto> x)) args)
             | Some kind \<Rightarrow>
                 (case value of
                    Some v \<Rightarrow>
                      (case flag_Set frac kind v of
                         Inl e \<Rightarrow> Inl 2
                       | Inr x \<Rightarrow> flag_Parse frac formal (actual(name \<mapsto> x)) args)
                  | None \<Rightarrow>
                      (case args of
                         [] \<Rightarrow> Inl 2
                       | v # rest \<Rightarrow>
                           (case flag_Set frac kind v of
                              Inl e \<Rightarrow> Inl 2
                            | Inr x \<Rightarrow> flag_Parse frac formal (actual(name \<mapsto> x)) rest))))))"

text \<open>The value of a flag after parsing: what was set, else its default.\<close>

definition str_flag :: "(string \<rightharpoonup> flag_val) \<Rightarrow> string \<Rightarrow> string \<Rightarrow> string" where
  "str_flag actual name dflt = (case actual name of Some (StrVal s) \<Rightarrow> s | _ \<Rightarrow> dflt)"

definition u64_flag :: "(string \<rightharpoonup> flag_val) \<Rightarrow> string \<Rightarrow> u64 \<Rightarrow> u64" where
  "u64_flag actual name dflt = (case actual name of Some (UintVal n) \<Rightarrow> n | _ \<Rightarrow> dflt)"

definition bool_flag :: "(string \<rightharpoonup> flag_val) \<Rightarrow> string \<Rightarrow> bool" where
  "bool_flag actual name = (case actual name of Some (BoolVal b) \<Rightarrow> b | _ \<Rightarrow> False)"

section \<open>Whole seconds\<close>

lemma dec_digit_char: "n < 10 \<Longrightarrow> dec_digit (digit_char n) \<and> dec_val (digit_char n) = n"
  by (simp add: dec_digit_def dec_val_def of_char_digit_char)

lemma leadingInt_FormatUint:
  "n \<le> 2 ^ 63 \<Longrightarrow> leadingInt 0 (FormatUint 10 n @ t) = leadingInt n t"
proof (induction n arbitrary: t rule: less_induct)
  case (less n)
  show ?case
  proof (cases "n < 10")
    case True
    then show ?thesis using dec_digit_char [OF True] less.prems by (subst FormatUint.simps) simp
  next
    case False
    have d: "dec_digit (digit_char (n mod 10))" "dec_val (digit_char (n mod 10)) = n mod 10"
      using dec_digit_char [of "n mod 10"] by auto
    have le: "n div 10 \<le> 2 ^ 63 div 10" using less.prems by (rule div_le_mono)
    have "leadingInt 0 (FormatUint 10 (n div 10) @ digit_char (n mod 10) # t) =
      leadingInt (n div 10) (digit_char (n mod 10) # t)"
      using False less.prems by (intro less.IH) auto
    then show ?thesis using False d le less.prems by (subst FormatUint.simps) simp
  qed
qed

lemma hd_FormatUint_digit: "dec_digit (hd (FormatUint 10 n @ t))"
proof -
  obtain d where "d < 10" "hd (FormatUint 10 n) = digit_char d" using hd_FormatUint [of 10 n] by auto
  with dec_digit_char [of d] show ?thesis by simp
qed

lemma ParseDuration_seconds:
  assumes "n * 1000000000 < 2 ^ 63"
  shows "ParseDuration frac (FormatUint 10 n @ ''s'') = Inr (int n * 1000000000)"
proof -
  let ?s = "FormatUint 10 n @ ''s''"
  have lead: "leadingInt 0 ?s = Some (n, ''s'')"
    using assms leadingInt_FormatUint [of n "''s''"] by (simp add: dec_digit_def)
  have sign: "hd ?s \<noteq> CHR ''-''" "hd ?s \<noteq> CHR ''+''"
    using hd_FormatUint_digit [of n "''s''"] by (auto simp: dec_digit_def)
  have part: "duration_part frac ?s = Some (n * 1000000000, [])"
    using assms lead hd_FormatUint_digit [of n "''s''"]
    by (simp add: duration_part_def unitMap_def dec_digit_def)
  obtain c r where cr: "?s = c # r" by (cases ?s) auto
  have "duration_loop frac (length ?s) 0 ?s = Some (n * 1000000000)"
    unfolding cr using assms part [unfolded cr] by (simp del: power_Suc)
  moreover have "?s \<noteq> ''0''" by (cases "FormatUint 10 n") auto
  ultimately show ?thesis using assms sign by (simp add: ParseDuration_def)
qed

end
