(* ===== verification/Config.thy ===== *)
theory Config
  imports GoFlag
begin

text \<open>
  \<open>internal/config/config.go\<close>: the settings of \<open>qi-index follow\<close>, layered from the defaults, a YAML
  file, environment variables and flags. What the process sees of its system is the record \<open>os\<close>;
  \<open>yaml.Unmarshal\<close> is the parameter \<open>unmarshal\<close>, which gets the decoder of durations, the text and
  the struct to fill. \<open>LoadFollow\<close> gives the settings, an error, or the status \<open>flag.ExitOnError\<close>
  ends the process with.

  The lemmas say which layer each setting comes from (\<open>load_layers\<close>) and that loaded settings are
  valid (\<open>load_valid\<close>).
\<close>

record Follow =
  RPCURL :: string
  WSURL :: string
  DatabaseURL :: string
  PollInterval :: int
  ReorgDepth :: int
  MetricsAddr :: string
  APIAddr :: string
  Verbose :: bool

definition defaultFollow :: Follow where
  "defaultFollow =
     \<lparr>RPCURL = ''https://rpc.quai.network/cyprus1'', WSURL = ''wss://rpc.quai.network/cyprus1'',
      DatabaseURL = [], PollInterval = 15 * 1000000000, ReorgDepth = 1024, MetricsAddr = [],
      APIAddr = [], Verbose = False\<rparr>"

definition DefaultPath :: string where
  "DefaultPath = ''configs/config.yaml''"

record os =
  Getenv :: "string \<Rightarrow> string"
  ReadFile :: "string \<Rightarrow> err + string"
  Stat :: "string \<Rightarrow> err option"
  unmarshal :: "(string \<Rightarrow> err + int) \<Rightarrow> string \<Rightarrow> Follow \<Rightarrow> err + Follow"
  frac :: "nat \<Rightarrow> nat \<Rightarrow> nat \<Rightarrow> nat"

definition Duration_UnmarshalYAML :: "os \<Rightarrow> string \<Rightarrow> err + int" where
  "Duration_UnmarshalYAML os value =
     wrapE (''invalid duration '' @ value) (ParseDuration (frac os) value)"

definition resolvePath :: "os \<Rightarrow> string \<Rightarrow> string" where
  "resolvePath os flagPath =
     (if flagPath \<noteq> [] then flagPath
      else if Getenv os ''QI_CONFIG'' \<noteq> [] then Getenv os ''QI_CONFIG''
      else if Stat os DefaultPath = None then DefaultPath
      else [])"

definition mergeFollowFile :: "os \<Rightarrow> Follow \<Rightarrow> string \<Rightarrow> err + Follow" where
  "mergeFollowFile os cfg path =
     bindE (ReadFile os path) (\<lambda>data. unmarshal os (Duration_UnmarshalYAML os) data cfg)"

text \<open>One \<open>if v := os.Getenv(name); v != ""\<close>: the value is used when it is set and parses.\<close>

definition env_case :: "os \<Rightarrow> string \<Rightarrow> (string \<Rightarrow> err + 'a) \<Rightarrow> ('a \<Rightarrow> Follow \<Rightarrow> Follow) \<Rightarrow> Follow \<Rightarrow> Follow" where
  "env_case os name parse upd cfg =
     (let v = Getenv os name in
      if v = [] then cfg else (case parse v of Inl e \<Rightarrow> cfg | Inr x \<Rightarrow> upd x cfg))"

definition mergeFollowEnv :: "os \<Rightarrow> Follow \<Rightarrow> Follow" where
  "mergeFollowEnv os cfg =
     env_case os ''QI_VERBOSE'' ParseBool (\<lambda>b c. c\<lparr>Verbose := b\<rparr>)
     (env_case os ''QI_API_ADDR'' Inr (\<lambda>v c. c\<lparr>APIAddr := v\<rparr>)
     (env_case os ''QI_METRICS_ADDR'' Inr (\<lambda>v c. c\<lparr>MetricsAddr := v\<rparr>)
     (env_case os ''QI_REORG_DEPTH'' Atoi (\<lambda>n c. c\<lparr>ReorgDepth := n\<rparr>)
     (env_case os ''QI_POLL_INTERVAL'' (ParseDuration (frac os)) (\<lambda>d c. c\<lparr>PollInterval := d\<rparr>)
     (env_case os ''QI_DATABASE_URL'' Inr (\<lambda>v c. c\<lparr>DatabaseURL := v\<rparr>)
     (env_case os ''QI_WS_URL'' Inr (\<lambda>v c. c\<lparr>WSURL := v\<rparr>)
     (env_case os ''QI_RPC_URL'' Inr (\<lambda>v c. c\<lparr>RPCURL := v\<rparr>) cfg)))))))"

section \<open>Flags\<close>

definition follow_flags :: "(string \<times> flag_kind) list" where
  "follow_flags =
     [(''api'', StringFlag), (''config'', StringFlag), (''db'', StringFlag), (''depth'', IntFlag),
      (''metrics'', StringFlag), (''poll'', DurationFlag), (''rpc'', StringFlag), (''v'', BoolFlag),
      (''ws'', StringFlag)]"

fun str_of :: "flag_val option \<Rightarrow> string" where
  "str_of (Some (StrVal s)) = s" | "str_of _ = []"

fun int_of :: "flag_val option \<Rightarrow> int" where
  "int_of (Some (IntVal n)) = n" | "int_of (Some (DurVal n)) = n" | "int_of _ = 0"

fun bool_of :: "flag_val option \<Rightarrow> bool" where
  "bool_of (Some (BoolVal b)) = b" | "bool_of _ = False"

definition visit_flag :: "(string \<rightharpoonup> flag_val) \<Rightarrow> string \<Rightarrow> Follow \<Rightarrow> Follow" where
  "visit_flag actual name cfg =
     (if name = ''rpc'' then cfg\<lparr>RPCURL := str_of (actual ''rpc'')\<rparr>
      else if name = ''ws'' then cfg\<lparr>WSURL := str_of (actual ''ws'')\<rparr>
      else if name = ''db'' then cfg\<lparr>DatabaseURL := str_of (actual ''db'')\<rparr>
      else if name = ''poll'' then cfg\<lparr>PollInterval := int_of (actual ''poll'')\<rparr>
      else if name = ''depth'' then cfg\<lparr>ReorgDepth := int_of (actual ''depth'')\<rparr>
      else if name = ''metrics'' then cfg\<lparr>MetricsAddr := str_of (actual ''metrics'')\<rparr>
      else if name = ''api'' then cfg\<lparr>APIAddr := str_of (actual ''api'')\<rparr>
      else if name = ''v'' then cfg\<lparr>Verbose := bool_of (actual ''v'')\<rparr>
      else cfg)"

text \<open>\<open>fs.Visit\<close> goes over the flags that were set, in the order of their names.\<close>

definition visit_flags :: "(string \<rightharpoonup> flag_val) \<Rightarrow> Follow \<Rightarrow> Follow" where
  "visit_flags actual cfg =
     fold (visit_flag actual) (filter (\<lambda>n. actual n \<noteq> None) (map fst follow_flags)) cfg"

definition validate :: "Follow \<Rightarrow> err + Follow" where
  "validate cfg =
     (if RPCURL cfg = [] then Inl (Msg ''rpc_url must not be empty'')
      else if ReorgDepth cfg \<le> 0 then Inl (Msg ''reorg_depth must be positive'')
      else if PollInterval cfg \<le> 0 then Inl (Msg ''poll_interval must be positive'')
      else Inr cfg)"

definition file_layer :: "os \<Rightarrow> string \<Rightarrow> err + Follow" where
  "file_layer os path =
     (if path = [] then Inr defaultFollow
      else wrapE (''load config file '' @ path) (mergeFollowFile os defaultFollow path))"

datatype loaded = Exits nat | Loaded "err + Follow"

definition LoadFollow :: "os \<Rightarrow> string list \<Rightarrow> loaded" where
  "LoadFollow os args =
     (case flag_Parse (frac os) (map_of follow_flags) Map.empty args of
        Inl code \<Rightarrow> Exits code
      | Inr actual \<Rightarrow> Loaded
          (bindE (file_layer os (resolvePath os (str_of (actual ''config''))))
             (\<lambda>cfg. validate (visit_flags actual (mergeFollowEnv os cfg)))))"

section \<open>The layers\<close>

text \<open>What each layer above the file says of a setting.\<close>

definition env_or :: "os \<Rightarrow> string \<Rightarrow> (string \<Rightarrow> err + 'a) \<Rightarrow> 'a \<Rightarrow> 'a" where
  "env_or os name parse below =
     (let v = Getenv os name in
      if v = [] then below else (case parse v of Inl e \<Rightarrow> below | Inr x \<Rightarrow> x))"

definition flag_or :: "(string \<rightharpoonup> flag_val) \<Rightarrow> string \<Rightarrow> (flag_val option \<Rightarrow> 'a) \<Rightarrow> 'a \<Rightarrow> 'a" where
  "flag_or actual name get below = (if actual name = None then below else get (actual name))"

lemma env_case_sel:
  assumes "\<And>x c. sel (upd x c) = x"
  shows "sel (env_case os name parse upd cfg) = env_or os name parse (sel cfg)"
  using assms by (simp add: env_case_def env_or_def Let_def split: sum.split)

lemma env_case_other:
  assumes "\<And>x c. sel (upd x c) = sel c"
  shows "sel (env_case os name parse upd cfg) = sel cfg"
  using assms by (simp add: env_case_def Let_def split: sum.split)

lemma mergeFollowEnv_layers:
  "RPCURL (mergeFollowEnv os cfg) = env_or os ''QI_RPC_URL'' Inr (RPCURL cfg)"
  "WSURL (mergeFollowEnv os cfg) = env_or os ''QI_WS_URL'' Inr (WSURL cfg)"
  "DatabaseURL (mergeFollowEnv os cfg) = env_or os ''QI_DATABASE_URL'' Inr (DatabaseURL cfg)"
  "PollInterval (mergeFollowEnv os cfg) =
     env_or os ''QI_POLL_INTERVAL'' (ParseDuration (frac os)) (PollInterval cfg)"
  "ReorgDepth (mergeFollowEnv os cfg) = env_or os ''QI_REORG_DEPTH'' Atoi (ReorgDepth cfg)"
  "MetricsAddr (mergeFollowEnv os cfg) = env_or os ''QI_METRICS_ADDR'' Inr (MetricsAddr cfg)"
  "APIAddr (mergeFollowEnv os cfg) = env_or os ''QI_API_ADDR'' Inr (APIAddr cfg)"
  "Verbose (mergeFollowEnv os cfg) = env_or os ''QI_VERBOSE'' ParseBool (Verbose cfg)"
  by (simp_all add: mergeFollowEnv_def env_case_other
      env_case_sel [where sel = RPCURL] env_case_sel [where sel = WSURL]
      env_case_sel [where sel = DatabaseURL] env_case_sel [where sel = PollInterval]
      env_case_sel [where sel = ReorgDepth] env_case_sel [where sel = MetricsAddr]
      env_case_sel [where sel = APIAddr] env_case_sel [where sel = Verbose]
      env_case_other [where sel = RPCURL] env_case_other [where sel = WSURL]
      env_case_other [where sel = DatabaseURL] env_case_other [where sel = PollInterval]
      env_case_other [where sel = ReorgDepth] env_case_other [where sel = MetricsAddr]
      env_case_other [where sel = APIAddr] env_case_other [where sel = Verbose])

lemma visit_layers:
  "RPCURL (visit_flags actual cfg) = flag_or actual ''rpc'' str_of (RPCURL cfg)"
  "WSURL (visit_flags actual cfg) = flag_or actual ''ws'' str_of (WSURL cfg)"
  "DatabaseURL (visit_flags actual cfg) = flag_or actual ''db'' str_of (DatabaseURL cfg)"
  "PollInterval (visit_flags actual cfg) = flag_or actual ''poll'' int_of (PollInterval cfg)"
  "ReorgDepth (visit_flags actual cfg) = flag_or actual ''depth'' int_of (ReorgDepth cfg)"
  "MetricsAddr (visit_flags actual cfg) = flag_or actual ''metrics'' str_of (MetricsAddr cfg)"
  "APIAddr (visit_flags actual cfg) = flag_or actual ''api'' str_of (APIAddr cfg)"
  "Verbose (visit_flags actual cfg) = flag_or actual ''v'' bool_of (Verbose cfg)"
  by (simp_all add: visit_flags_def follow_flags_def visit_flag_def flag_or_def)

lemma load_valid:
  "LoadFollow os args = Loaded (Inr cfg) \<Longrightarrow> RPCURL cfg \<noteq> [] \<and> 0 < ReorgDepth cfg \<and> 0 < PollInterval cfg"
  by (auto simp: LoadFollow_def validate_def bindE_eq_Inr split: sum.splits if_splits)

lemma load_layers:
  assumes "LoadFollow os args = Loaded (Inr cfg)"
  obtains actual base where
    "flag_Parse (frac os) (map_of follow_flags) Map.empty args = Inr actual"
    "file_layer os (resolvePath os (str_of (actual ''config''))) = Inr base"
    "cfg = visit_flags actual (mergeFollowEnv os base)"
  using assms by (auto simp: LoadFollow_def validate_def bindE_eq_Inr split: sum.splits if_splits)

section \<open>Property\<close>

text \<open>
  C25: Flags win over the environment, the environment over the file, the file over the defaults,
  setting by setting. When \<open>LoadFollow\<close> succeeds, each of the eight settings is the flag's value if
  the flag was given, else the environment variable's if it is set and parses, else that of the file
  layer (the defaults, with what the file sets put over them); and the URL is not empty, the depth
  and the poll interval are positive.
\<close>

theorem LoadFollow_precedence:
  assumes "LoadFollow os args = Loaded (Inr cfg)"
  shows "\<exists>actual base.
    flag_Parse (frac os) (map_of follow_flags) Map.empty args = Inr actual \<and>
    file_layer os (resolvePath os (str_of (actual ''config''))) = Inr base \<and>
    RPCURL cfg = flag_or actual ''rpc'' str_of (env_or os ''QI_RPC_URL'' Inr (RPCURL base)) \<and>
    WSURL cfg = flag_or actual ''ws'' str_of (env_or os ''QI_WS_URL'' Inr (WSURL base)) \<and>
    DatabaseURL cfg = flag_or actual ''db'' str_of (env_or os ''QI_DATABASE_URL'' Inr (DatabaseURL base)) \<and>
    PollInterval cfg = flag_or actual ''poll'' int_of
      (env_or os ''QI_POLL_INTERVAL'' (ParseDuration (frac os)) (PollInterval base)) \<and>
    ReorgDepth cfg = flag_or actual ''depth'' int_of (env_or os ''QI_REORG_DEPTH'' Atoi (ReorgDepth base)) \<and>
    MetricsAddr cfg = flag_or actual ''metrics'' str_of (env_or os ''QI_METRICS_ADDR'' Inr (MetricsAddr base)) \<and>
    APIAddr cfg = flag_or actual ''api'' str_of (env_or os ''QI_API_ADDR'' Inr (APIAddr base)) \<and>
    Verbose cfg = flag_or actual ''v'' bool_of (env_or os ''QI_VERBOSE'' ParseBool (Verbose base)) \<and>
    RPCURL cfg \<noteq> [] \<and> 0 < ReorgDepth cfg \<and> 0 < PollInterval cfg"
proof -
  from load_layers [OF assms] obtain actual base where
    l: "flag_Parse (frac os) (map_of follow_flags) Map.empty args = Inr actual"
    "file_layer os (resolvePath os (str_of (actual ''config''))) = Inr base"
    "cfg = visit_flags actual (mergeFollowEnv os base)" .
  with load_valid [OF assms] show ?thesis
    by (intro exI [of _ actual] exI [of _ base]) (simp add: visit_layers mergeFollowEnv_layers)
qed

definition ex_os :: os where
  "ex_os = \<lparr>Getenv = (\<lambda>n. if n = ''QI_REORG_DEPTH'' then ''64'' else if n = ''QI_POLL_INTERVAL'' then ''soon'' else []),
     ReadFile = (\<lambda>_. Inl (Msg ''no such file'')), Stat = (\<lambda>_. Some (Msg ''no such file'')),
     unmarshal = (\<lambda>_ _ cfg. Inr cfg), frac = (\<lambda>_ _ _. 0)\<rparr>"

text \<open>The depth comes from the environment; the interval that does not parse is left at its default.\<close>

theorem LoadFollow_precedence_witness:
  "\<exists>cfg. LoadFollow ex_os [''-api'', '':8080''] = Loaded (Inr cfg) \<and> 0 < ReorgDepth cfg \<and>
     DatabaseURL cfg = flag_or [''api'' \<mapsto> StrVal '':8080''] ''db'' str_of []"
proof -
  have flags: "flag_Parse (frac ex_os) (map_of follow_flags) Map.empty [''-api'', '':8080''] =
      Inr [''api'' \<mapsto> StrVal '':8080'']"
    by (simp add: follow_flags_def flag_name_def)
  have base: "file_layer ex_os (resolvePath ex_os (str_of ([''api'' \<mapsto> StrVal '':8080''] ''config''))) =
      Inr defaultFollow"
    by (simp add: file_layer_def resolvePath_def ex_os_def)
  have "ParseDuration (\<lambda>_ _ _. 0) ''soon'' = Inl ErrDuration"
    by (simp add: ParseDuration_def duration_part_def dec_digit_def)
  then have "\<exists>cfg. LoadFollow ex_os [''-api'', '':8080''] = Loaded (Inr cfg)"
    using flags base
    by (simp add: LoadFollow_def validate_def visit_layers mergeFollowEnv_layers env_or_def flag_or_def)
      (simp add: ex_os_def defaultFollow_def Atoi_def res_of_def ParseInt_def ParseUint_def digit_val_def)
  then obtain cfg where cfg: "LoadFollow ex_os [''-api'', '':8080''] = Loaded (Inr cfg)" by blast
  from LoadFollow_precedence [OF cfg] flags base cfg show ?thesis
    by (auto simp: env_or_def) (auto simp: ex_os_def defaultFollow_def)
qed

end
