(* ===== verification/Service.thy ===== *)
theory Service
  imports RunLoop Api WsHub Config
begin

text \<open>
  \<open>cmd/qi-index/main.go\<close>, the composition root, with \<open>Broadcast\<close> and \<open>Start\<close> of the API server
  (\<open>internal/api/server.go\<close>): \<open>openStore\<close> chooses the store, \<open>service_run\<close> builds the follower and the
  indexer over it and decides whether the API is served, \<open>on_update\<close> is the callback that broadcasts
  the events of the last applied block, and \<open>qi_main\<close> is the process: it exits with a status or runs
  the loop of \<open>RunLoop\<close>, whose end gives the status \<open>run_status\<close>. Connecting to the database is the
  parameter \<open>newPg\<close>; the signals are the cancellation of the loop's context.

  \<open>broadcasts\<close> is what the callback broadcasts over a sequence of updates, each with the snapshots
  its queries see.
\<close>

datatype opened = InMemory memory | InPostgres pool

definition openStore :: "goquai \<Rightarrow> (string \<Rightarrow> err + pool) \<Rightarrow> string \<Rightarrow> err + opened" where
  "openStore g newPg dbURL =
     (if dbURL = [] then Inr (InMemory NewMemory)
      else bindE (newPg dbURL) (\<lambda>pg. Inr (InPostgres (SetDecoder (qi_decoder g) pg))))"

text \<open>The indexer over the store, and whether the API is on: only the database store is a \<open>Reader\<close>.\<close>

datatype service = MemService "memory indexer" | PgService "pool indexer" bool

definition service_run :: "goquai \<Rightarrow> (string \<Rightarrow> err + pool) \<Rightarrow> Follow \<Rightarrow> err + service" where
  "service_run g newPg cfg =
     bindE (wrapE ''open store'' (openStore g newPg (DatabaseURL cfg)))
       (\<lambda>st. let depth = nat (Follow.ReorgDepth cfg) in
          case st of
            InMemory m \<Rightarrow>
              bindE (wrapE ''init follower'' (follower_New memory_ops m depth))
                (\<lambda>f. Inr (MemService (NewIndexer f depth)))
          | InPostgres pg \<Rightarrow>
              bindE (wrapE ''init follower'' (follower_New postgres_ops pg depth))
                (\<lambda>f. Inr (PgService (NewIndexer f depth) (APIAddr cfg \<noteq> []))))"

section \<open>The API server\<close>

definition Server_Broadcast :: "goquai \<Rightarrow> block_utxo_events \<Rightarrow> hub \<Rightarrow> err + hub" where
  "Server_Broadcast g ev h = bindE (broadcast_payload g ev) (\<lambda>payload. Inr (hub_Broadcast payload h))"

definition ErrServerClosed :: err where
  "ErrServerClosed = Ext ''http: Server closed''"

text \<open>
  \<open>Start\<close>: what it can return once \<open>ListenAndServe\<close> has returned \<open>listen\<close> (\<open>None\<close> while it still serves)
  and the context is done or not; \<open>shutdown\<close> is what \<open>Shutdown\<close> returns. No value: it waits.
\<close>

definition Server_Start :: "err option \<Rightarrow> bool \<Rightarrow> err option \<Rightarrow> err option list" where
  "Server_Start listen canceled shutdown =
     (case listen of Some e \<Rightarrow> if e \<noteq> ErrServerClosed then [Some e] else [] | None \<Rightarrow> []) @
     (if canceled then [shutdown] else [])"

section \<open>The callback\<close>

text \<open>
  \<open>OnUpdate\<close>: the hub stays as it is when the events cannot be read, which is logged only; \<open>Inl\<close> is a
  panic, for an update without applied blocks, or out of the marshalling of an unknown denomination.
\<close>

definition on_update :: "goquai \<Rightarrow> snapshots \<Rightarrow> chain_update \<Rightarrow> hub \<Rightarrow> err + hub" where
  "on_update g snap u h =
     (if Apply u = [] then Inl (Panic ''index out of range [-1]'')
      else case GetBlockUTXOEvents snap (Height (last (Apply u))) of
        Inl e \<Rightarrow> Inr h
      | Inr ev \<Rightarrow> Server_Broadcast g ev h)"

fun broadcasts :: "goquai \<Rightarrow> (snapshots \<times> chain_update) list \<Rightarrow> hub \<Rightarrow> err + hub" where
  "broadcasts g [] h = Inr h"
| "broadcasts g ((snap, u) # us) h = bindE (on_update g snap u h) (broadcasts g us)"

section \<open>The process\<close>

datatype log_level = LevelInfo | LevelDebug

definition newLogger :: "bool \<Rightarrow> log_level" where
  "newLogger verbose = (if verbose then LevelDebug else LevelInfo)"

datatype process = Exited nat | RunsMem "memory run" | RunsPg "pool run" bool

definition started :: "('s run \<Rightarrow> process) \<Rightarrow> err + 's run \<Rightarrow> process" where
  "started runs r = (case r of Inl e \<Rightarrow> Exited 1 | Inr st \<Rightarrow> runs st)"

text \<open>\<open>main\<close> up to the loop, from the arguments after the name of the program.\<close>

definition qi_main ::
  "goquai \<Rightarrow> os \<Rightarrow> (string \<Rightarrow> err + pool) \<Rightarrow> (string \<Rightarrow> err + block) \<Rightarrow> (u64 \<Rightarrow> u64 \<Rightarrow> err + block list) \<Rightarrow>
   (err + block) \<Rightarrow> string list \<Rightarrow> process option" where
  "qi_main g os newPg fetch rf latest args =
     (if args = [] \<or> hd args \<noteq> ''follow'' then Some (Exited 2)
      else case LoadFollow os (tl args) of
        Exits code \<Rightarrow> Some (Exited code)
      | Loaded (Inl e) \<Rightarrow> Some (Exited 2)
      | Loaded (Inr cfg) \<Rightarrow>
          (case service_run g newPg cfg of
             Inl e \<Rightarrow> Some (Exited 1)
           | Inr (MemService ix) \<Rightarrow>
               map_option (started RunsMem) (run_start memory_ops fetch rf latest (WSURL cfg) ix)
           | Inr (PgService ix api) \<Rightarrow>
               map_option (started (\<lambda>st. RunsPg st api)) (run_start postgres_ops fetch rf latest (WSURL cfg) ix)))"

text \<open>The loop returns no error, so the process then exits with status 0.\<close>

definition run_status :: "'s run \<Rightarrow> nat option" where
  "run_status st = (if rn_returned st then Some 0 else None)"

section \<open>The callback over a run\<close>

lemma on_update_total:
  assumes "Apply u \<noteq> []" "snaps_ok g snap"
  shows "\<exists>h'. on_update g snap u h = Inr h'"
proof (cases "GetBlockUTXOEvents snap (Height (last (Apply u)))")
  case (Inl e)
  with assms(1) show ?thesis by (simp add: on_update_def)
next
  case (Inr ev)
  from known_BlockEvents [OF assms(2) this]
  have k: "known_utxos g (ev_Created ev)" "known_utxos g (ev_Spent ev)" "known_utxos g (ev_Trimmed ev)"
    by auto
  from marshalList_known [OF k(1)] obtain c where "marshalList g (ev_Created ev) = Inr c" ..
  moreover from marshalList_known [OF k(2)] obtain s where "marshalList g (ev_Spent ev) = Inr s" ..
  moreover from marshalList_known [OF k(3)] obtain t where "marshalList g (ev_Trimmed ev) = Inr t" ..
  ultimately show ?thesis using Inr assms(1) by (simp add: on_update_def Server_Broadcast_def broadcast_payload_def)
qed

text \<open>The callback of an update with applied blocks panics exactly on an event of unknown denomination.\<close>

lemma known_utxos_append: "known_utxos g (us @ vs) \<longleftrightarrow> known_utxos g us \<and> known_utxos g vs"
  by (auto simp: known_utxos_def)

lemma marshalList_panics: "marshalList g us = Inl e \<longleftrightarrow> e = NilDeref \<and> \<not> known_utxos g us"
  using marshalList_known [of g us] marshalList_unknown [of g us] by (cases "known_utxos g us") auto

lemma broadcast_payload_panics:
  "broadcast_payload g ev = Inl e \<longleftrightarrow>
   e = NilDeref \<and> \<not> known_utxos g (ev_Created ev @ ev_Spent ev @ ev_Trimmed ev)"
proof -
  have m: "(\<exists>j. marshalList g us = Inr j) \<longleftrightarrow> known_utxos g us" for us
    using marshalList_known [of g us] marshalList_panics [of g us] by (cases "marshalList g us") auto
  show ?thesis
    unfolding broadcast_payload_def bindE_eq_Inl known_utxos_append marshalList_panics m [symmetric] by auto
qed

lemma on_update_panics:
  assumes "Apply u \<noteq> []"
  shows "on_update g snap u h = Inl e \<longleftrightarrow>
    e = NilDeref \<and> (\<exists>ev. GetBlockUTXOEvents snap (Height (last (Apply u))) = Inr ev \<and>
      \<not> known_utxos g (ev_Created ev @ ev_Spent ev @ ev_Trimmed ev))"
proof (cases "GetBlockUTXOEvents snap (Height (last (Apply u)))")
  case (Inl e')
  with assms show ?thesis by (simp add: on_update_def)
next
  case (Inr ev)
  then have "on_update g snap u h = Server_Broadcast g ev h" using assms by (simp add: on_update_def)
  with Inr broadcast_payload_panics [of g ev e] show ?thesis by (simp add: Server_Broadcast_def bindE_eq_Inl)
qed

lemma broadcasts_total:
  "\<forall>(snap, u) \<in> set us. Apply u \<noteq> [] \<and> snaps_ok g snap \<Longrightarrow> \<exists>h'. broadcasts g us h = Inr h'"
proof (induction us arbitrary: h)
  case (Cons su us)
  obtain snap u where su: "su = (snap, u)" by (cases su)
  with Cons.prems obtain h1 where "on_update g snap u h = Inr h1" using on_update_total [of u g snap h] by auto
  with Cons su show ?case by simp
qed simp

text \<open>What the composition root builds over a database in order.\<close>

lemma service_starts:
  assumes "service_run g newPg cfg = Inr (PgService ix0 api)" "0 < Follow.ReorgDepth cfg" "honest N"
    and "\<And>pg. newPg (DatabaseURL cfg) = Inr pg \<Longrightarrow>
      pg_inv (qi_decoder g) (replay g) (SetDecoder (qi_decoder g) pg) \<and>
      set (pg_canon (SetDecoder (qi_decoder g) pg)) \<subseteq> N"
  shows "ix_holds (pg_inv (qi_decoder g) (replay g)) pg_canon N ix0"
proof -
  let ?depth = "nat (Follow.ReorgDepth cfg)"
  obtain pg f where pg: "newPg (DatabaseURL cfg) = Inr pg"
    "follower_New postgres_ops (SetDecoder (qi_decoder g) pg) ?depth = Inr f" "ix0 = NewIndexer f ?depth"
    using assms(1)
    by (auto simp: service_run_def openStore_def bindE_eq_Inr wrapE_def Let_def split: sum.splits opened.splits if_splits)
  have "f_holds (pg_inv (qi_decoder g) (replay g)) pg_canon N f \<and> f_updates f = []"
    using qi.pg.new_holds [OF _ assms(3) _ _ pg(2)] assms(2,4) pg(1) by auto
  then show ?thesis unfolding pg(3) by (auto intro: qi.pg.ix_new_holds)
qed

text \<open>A process that runs over the database has loaded settings and started the loop on them.\<close>

lemma started_RunsPg [simp]:
  "started (\<lambda>st. RunsPg st a) r = RunsPg st api \<longleftrightarrow> r = Inr st \<and> a = api"
  "started RunsMem r' \<noteq> RunsPg st api"
  by (cases r; cases r'; auto simp: started_def)+

lemma qi_main_runs:
  assumes "qi_main g os newPg fetch rf latest args = Some (RunsPg st api)"
  shows "\<exists>cfg ix. LoadFollow os (tl args) = Loaded (Inr cfg) \<and> service_run g newPg cfg = Inr (PgService ix api) \<and>
    run_start postgres_ops fetch rf latest (WSURL cfg) ix = Some (Inr st)"
proof -
  have args: "args \<noteq> []" "hd args = ''follow''" using assms by (simp_all add: qi_main_def split: if_splits)
  show ?thesis
  proof (cases "LoadFollow os (tl args)")
    case (Exits code)
    with assms args show ?thesis by (simp add: qi_main_def)
  next
    case (Loaded r)
    then obtain cfg where cfg: "LoadFollow os (tl args) = Loaded (Inr cfg)"
      using assms args by (cases r) (simp_all add: qi_main_def)
    with assms args obtain sv where sv: "service_run g newPg cfg = Inr sv"
      by (cases "service_run g newPg cfg") (simp_all add: qi_main_def)
    with assms args cfg show ?thesis by (cases sv) (auto simp: qi_main_def)
  qed
qed

end
