(* ===== verification/Reconcile.thy ===== *)
theory Reconcile
  imports Ledger RpcClient GoFlag "HOL-Library.List_Lexorder" "HOL-Library.Char_ord"
begin

text \<open>
  \<open>cmd/reconcile/main.go\<close>: backfill the recent blocks through the decoder, then compare the unspent
  outputs of the sampled addresses with the node's. The command's inputs are the record \<open>rc_env\<close>:
  the constants of the protocol, the transport of its client, and the faults of its transactions
  and queries; the database is passed along, with the number of the next transaction. A set of
  outpoints is the set of its keys. \<open>SELECT DISTINCT\<close> leaves the order of the addresses open; the
  model takes that of the table. The loop over the sample does not ask \<open>rows.Err\<close>, so a connection
  that breaks after so many rows (\<open>rc_SampleBreak\<close>) only shortens the sample. \<open>reconcile_main\<close> is the
  process: its exit status. Logging and the progress output are left out.

  The lemmas give the range in closed form, also where its subtraction wraps around
  (\<open>backfill_from_range\<close>, \<open>reconcile_underflow\<close>), the end of the backfill
  (\<open>backfill_loop_returns\<close>), and what the count of mismatches counts (\<open>check_addrs_count\<close>).
\<close>

record rc_env =
  rc_goquai :: goquai
  rc_undef :: "string \<Rightarrow> int"
  rc_transport :: transport
  rc_fault :: "nat \<Rightarrow> nat \<Rightarrow> err option"
  rc_ConnectFault :: "err option"
  rc_RangeFault :: "err option"
  rc_SampleFault :: "err option"
  rc_SampleBreak :: "nat option"
  rc_UnspentFault :: "string \<Rightarrow> err option"

section \<open>Backfill\<close>

definition height_range :: "db \<Rightarrow> err + (u64 \<times> u64)" where
  "height_range d =
     (if t_blocks d = [] then Inl (Ext ''cannot scan NULL into *uint64'')
      else Inr (Min (set (map br_height (t_blocks d))), Max (set (map br_height (t_blocks d)))))"

definition backfill_from :: "u64 \<Rightarrow> u64 \<Rightarrow> u64 \<Rightarrow> u64" where
  "backfill_from minH maxH nBlocks =
     (let from' = maxH - nBlocks + 1 in if from' < minH then minH else from')"

fun decode_blocks :: "rc_env \<Rightarrow> block list \<Rightarrow> nat \<times> db \<Rightarrow> err option \<times> nat \<times> db" where
  "decode_blocks env [] s = (None, s)"
| "decode_blocks env (b # bs) (n, d) =
     (case BeginFunc (rc_fault env n) (DecodeApply (rc_goquai env) [b]) d of
        (Some e, d') \<Rightarrow> (Some (Wrap ''decode block'' e), Suc n, d')
      | (None, d') \<Rightarrow> decode_blocks env bs (Suc n, d'))"

definition batch_end :: "u64 \<Rightarrow> u64 \<Rightarrow> u64" where
  "batch_end maxH h = (let e = h + 100 in if maxH + 1 < e then maxH + 1 else e)"

partial_function (option) backfill_loop ::
  "rc_env \<Rightarrow> u64 \<Rightarrow> u64 \<Rightarrow> nat \<times> db \<Rightarrow> (err option \<times> nat \<times> db) option" where
  "backfill_loop env maxH h s =
     (if maxH < h then Some (None, s)
      else case client_range (rc_undef env) (rc_transport env) h (batch_end maxH h) of
        Inl e \<Rightarrow> Some (Some (Wrap ''fetch'' e), s)
      | Inr blocks \<Rightarrow>
          (case decode_blocks env blocks s of
             (Some e, s') \<Rightarrow> Some (Some e, s')
           | (None, s') \<Rightarrow> backfill_loop env maxH (h + 100) s'))"

section \<open>Comparison\<close>

definition addr_text :: "bytes \<Rightarrow> string" where
  "addr_text a = ''0x'' @ hex_EncodeToString a"

definition outpointKey :: "string \<Rightarrow> u64 \<Rightarrow> string" where
  "outpointKey txHash index = map lower_ascii txHash @ '':'' @ FormatUint 10 (unat index)"

definition rpcOutpoint_member :: "string \<times> json \<Rightarrow> string \<times> u64 \<Rightarrow> err + (string \<times> u64)" where
  "rpcOutpoint_member m r = (case m of (k, j) \<Rightarrow>
     if key_is ''txHash'' k then bindE (un_string j (fst r)) (\<lambda>x. Inr (x, snd r))
     else if key_is ''index'' k then bindE (HexU64_UnmarshalJSON j) (\<lambda>x. Inr (fst r, x))
     else Inr r)"

text \<open>The outpoints of the node's reply.\<close>

definition node_outpoints :: "json option \<Rightarrow> err + (string \<times> u64) list" where
  "node_outpoints raw =
     (case raw of
        None \<Rightarrow> Inl (Wrap ''unmarshal outpoints'' (Ext ''unexpected end of JSON input''))
      | Some j \<Rightarrow>
          if j = JNull then Inr []
          else bindE (wrapE ''unmarshal outpoints''
                 (un_slice (\<lambda>j. un_struct rpcOutpoint_member j ([], 0)) j)) (\<lambda>ops. Inr (slice_list ops)))"

definition nodeUnspent :: "transport \<Rightarrow> string \<Rightarrow> err + string set" where
  "nodeUnspent t addr =
     bindE (CallRaw t ''quai_getOutpointsByAddress'' [PStr addr])
       (\<lambda>raw. bindE (node_outpoints raw)
          (\<lambda>ops. Inr (set (map (\<lambda>(txHash, index). outpointKey txHash index) ops))))"

definition row_outpoint :: "utxo \<Rightarrow> string" where
  "row_outpoint r = outpointKey (''0x'' @ hex_EncodeToString (tx_hash r)) (word_of_int (sint (tx_index r)))"

definition dbUnspent :: "rc_env \<Rightarrow> db \<Rightarrow> string \<Rightarrow> err + string set" where
  "dbUnspent env d addr =
     bindE (hex_DecodeString (trim0x addr))
       (\<lambda>addrBytes. case rc_UnspentFault env addr of
          Some e \<Rightarrow> Inl e
        | None \<Rightarrow> Inr (set (map row_outpoint
            (filter (\<lambda>r. address r = addrBytes \<and> row_unspent r) (t_utxos d)))))"

record diffResult =
  onlyNode :: "string list"
  onlyDB :: "string list"

definition diffSets :: "string set \<Rightarrow> string set \<Rightarrow> diffResult" where
  "diffSets node ours =
     \<lparr>onlyNode = sorted_list_of_set (node - ours), onlyDB = sorted_list_of_set (ours - node)\<rparr>"

text \<open>The driver refuses a \<open>uint64\<close> that no \<open>BIGINT\<close> can hold.\<close>

definition bigint_arg :: "u64 \<Rightarrow> err + u64" where
  "bigint_arg v = bindE (bigint_args [v]) (\<lambda>_. Inr v)"

definition rows_until :: "nat option \<Rightarrow> 'a list \<Rightarrow> 'a list" where
  "rows_until brk rows = (case brk of None \<Rightarrow> rows | Some n \<Rightarrow> take n rows)"

lemma set_rows_until: "set (rows_until brk rows) \<subseteq> set rows"
  by (auto simp: rows_until_def dest: in_set_takeD split: option.splits)

definition sample_addresses :: "rc_env \<Rightarrow> db \<Rightarrow> u64 \<Rightarrow> u64 \<Rightarrow> err + string list" where
  "sample_addresses env d lo hi =
     bindE (bigint_arg lo)
       (\<lambda>lo'. bindE (bigint_arg hi)
          (\<lambda>hi'. case rc_SampleFault env of
             Some e \<Rightarrow> Inl e
           | None \<Rightarrow> Inr (rows_until (rc_SampleBreak env) (take 1000 (remdups (map (\<lambda>r. addr_text (address r))
               (filter (\<lambda>r. lo' \<le> created_block r \<and> created_block r \<le> hi' \<and> row_unspent r)
                  (t_utxos d))))))))"

fun check_addrs :: "rc_env \<Rightarrow> db \<Rightarrow> string list \<Rightarrow> nat \<Rightarrow> err + nat" where
  "check_addrs env d [] mismatches = Inr mismatches"
| "check_addrs env d (addr # addrs) mismatches =
     (case nodeUnspent (rc_transport env) addr of
        Inl e \<Rightarrow> check_addrs env d addrs mismatches
      | Inr nodeSet \<Rightarrow>
          bindE (wrapE ''db unspent'' (dbUnspent env d addr))
            (\<lambda>ourSet. check_addrs env d addrs
               (if onlyDB (diffSets nodeSet ourSet) \<noteq> [] then mismatches + 1 else mismatches)))"

definition verify :: "rc_env \<Rightarrow> db \<Rightarrow> u64 \<Rightarrow> u64 \<Rightarrow> err option" where
  "verify env d lo maxH =
     (case wrapE ''sample addresses'' (sample_addresses env d lo (maxH - 50)) of
        Inl e \<Rightarrow> Some e
      | Inr addrs \<Rightarrow>
          (case check_addrs env d addrs 0 of
             Inl e \<Rightarrow> Some e
           | Inr m \<Rightarrow>
               if 0 < m then Some (Msg (FormatUint 10 m @ '' address(es) have mismatched unspent sets''))
               else None))"

definition reconcile_run :: "rc_env \<Rightarrow> u64 \<Rightarrow> db \<Rightarrow> (err option \<times> db) option" where
  "reconcile_run env nBlocks d =
     (case rc_ConnectFault env of
        Some e \<Rightarrow> Some (Some (Wrap ''connect db'' e), d)
      | None \<Rightarrow>
          (case (case rc_RangeFault env of Some e \<Rightarrow> Inl e | None \<Rightarrow> height_range d) of
             Inl e \<Rightarrow> Some (Some (Wrap ''height range'' e), d)
           | Inr (minH, maxH) \<Rightarrow>
               let lo = backfill_from minH maxH nBlocks in
               (case backfill_loop env maxH lo (0, d) of
                  None \<Rightarrow> None
                | Some (Some e, s) \<Rightarrow> Some (Some e, snd s)
                | Some (None, s) \<Rightarrow> Some (verify env (snd s) lo maxH, snd s))))"

text \<open>The command line: the environment is that of the two URLs.\<close>

definition reconcile_flags :: "(string \<times> flag_kind) list" where
  "reconcile_flags = [(''db'', StringFlag), (''rpc'', StringFlag), (''blocks'', Uint64Flag), (''v'', BoolFlag)]"

definition reconcile_main ::
  "(nat \<Rightarrow> nat \<Rightarrow> nat \<Rightarrow> nat) \<Rightarrow> (string \<Rightarrow> string \<Rightarrow> rc_env) \<Rightarrow> string list \<Rightarrow> db \<Rightarrow> (nat \<times> db) option" where
  "reconcile_main frac env args d =
     (case flag_Parse frac (map_of reconcile_flags) Map.empty args of
        Inl code \<Rightarrow> Some (code, d)
      | Inr actual \<Rightarrow>
          let dbURL = str_flag actual ''db'' ''postgres://qi:qi@127.0.0.1:5433/qi_index'';
              rpcURL = str_flag actual ''rpc'' ''https://rpc.quai.network/cyprus1'';
              nBlocks = u64_flag actual ''blocks'' 2000
          in (case reconcile_run (env dbURL rpcURL) nBlocks d of
                None \<Rightarrow> None
              | Some (Some e, d') \<Rightarrow> Some (1, d')
              | Some (None, d') \<Rightarrow> Some (0, d')))"

section \<open>The range\<close>

lemma unat_range_start:
  fixes maxH nBlocks :: u64
  assumes "unat nBlocks \<le> unat maxH + 1" "0 < nBlocks"
  shows "unat (maxH - nBlocks + 1) = unat maxH + 1 - unat nBlocks"
proof (cases "unat nBlocks \<le> unat maxH")
  case True
  have "0 < unat nBlocks" using assms(2) by (simp add: unat_gt_0)
  then have "unat (maxH - (nBlocks - 1)) = unat maxH - unat (nBlocks - 1)" "unat (nBlocks - 1) = unat nBlocks - 1"
    using True assms(2) by (simp_all add: unat_sub unat_minus_one word_le_nat_alt less_imp_neq [THEN not_sym])
  moreover have "maxH - nBlocks + 1 = maxH - (nBlocks - 1)" by simp
  then have "unat (maxH - nBlocks + 1) = unat (maxH - (nBlocks - 1))" by (rule arg_cong)
  ultimately show ?thesis using \<open>0 < unat nBlocks\<close> True by linarith
next
  case False
  with assms have eq: "unat nBlocks = unat maxH + 1" by simp
  have "nBlocks = word_of_nat (unat nBlocks)" by simp
  also have "\<dots> = maxH + 1" unfolding eq by simp
  finally have "nBlocks = maxH + 1" .
  with eq show ?thesis by simp
qed

lemma backfill_from_range:
  assumes "unat nBlocks \<le> unat maxH + 1" "0 < nBlocks"
  shows "unat (backfill_from minH maxH nBlocks) = max (unat minH) (unat maxH + 1 - unat nBlocks)"
  using unat_range_start [OF assms] by (simp add: backfill_from_def Let_def word_less_nat_alt max_def)

text \<open>Asking for more blocks than there are heights: the start wraps around, above the end.\<close>

lemma unat_range_wraps:
  fixes maxH nBlocks :: u64
  assumes "unat maxH + 1 < unat nBlocks"
  shows "unat (maxH - nBlocks + 1) = 2 ^ 64 + unat maxH + 1 - unat nBlocks"
proof -
  have lt: "unat nBlocks < 2 ^ 64" using unsigned_less [of nBlocks, where ?'a = nat] by simp
  let ?n = "2 ^ 64 + unat maxH + 1 - unat nBlocks"
  have "word_of_nat ?n + nBlocks = word_of_nat (?n + unat nBlocks)" by simp
  also have "?n + unat nBlocks = 2 ^ 64 + unat maxH + 1" using lt by linarith
  also have "word_of_nat (2 ^ 64 + unat maxH + 1) = maxH + 1" by simp
  finally have "maxH - nBlocks + 1 = word_of_nat ?n" by (simp add: algebra_simps)
  moreover have "?n < 2 ^ 64" using assms by simp
  ultimately show ?thesis by (simp add: unat_of_nat)
qed

lemma backfill_from_wraps:
  assumes "unat maxH + 1 < unat nBlocks" "minH \<le> maxH"
  shows "unat (backfill_from minH maxH nBlocks) = 2 ^ 64 + unat maxH + 1 - unat nBlocks"
    and "maxH < backfill_from minH maxH nBlocks"
proof -
  have lt: "unat nBlocks < 2 ^ 64" using unsigned_less [of nBlocks, where ?'a = nat] by simp
  note u = unat_range_wraps [OF assms(1)]
  have "\<not> maxH - nBlocks + 1 < minH"
    using assms(2) unfolding word_less_nat_alt word_le_nat_alt u using lt by linarith
  then have b: "backfill_from minH maxH nBlocks = maxH - nBlocks + 1" by (simp add: backfill_from_def Let_def)
  show "unat (backfill_from minH maxH nBlocks) = 2 ^ 64 + unat maxH + 1 - unat nBlocks"
    using b u by simp
  then show "maxH < backfill_from minH maxH nBlocks" unfolding word_less_nat_alt using lt by linarith
qed

text \<open>Then nothing is backfilled, and the sample query cannot be asked: an error, and no verdict.\<close>

lemma reconcile_underflow:
  assumes "rc_ConnectFault env = None" "rc_RangeFault env = None" "height_range d = Inr (minH, maxH)"
    and "unat maxH + 1 < unat nBlocks" "unat nBlocks \<le> 2 ^ 63" "minH \<le> maxH"
  shows "\<exists>e. reconcile_run env nBlocks d = Some (Some (Wrap ''sample addresses'' e), d)"
proof -
  let ?lo = "backfill_from minH maxH nBlocks"
  note w = backfill_from_wraps [OF assms(4,6)]
  have "2 ^ 63 \<le> unat ?lo" unfolding w(1) using assms(5) by simp
  then have "verify env d ?lo maxH =
      Some (Wrap ''sample addresses'' BigintRange)"
    by (simp add: verify_def sample_addresses_def bigint_arg_def bigint_args_def bigint_fits_def wrapE_def)
  moreover have "backfill_loop env maxH ?lo (0, d) = Some (None, 0, d)"
    using w(2) by (subst backfill_loop.simps) simp
  ultimately show ?thesis using assms(1-3) by (simp add: reconcile_run_def)
qed

section \<open>The backfill ends\<close>

lemma backfill_loop_returns:
  assumes "unat maxH < 2 ^ 63"
  shows "\<exists>r. backfill_loop env maxH h s = Some r"
proof (induction "unat maxH + 100 - unat h" arbitrary: h s rule: less_induct)
  case less
  show ?case
  proof (cases "maxH < h")
    case True
    then show ?thesis by (subst backfill_loop.simps) simp
  next
    case False
    then have le: "unat h \<le> unat maxH" by (simp add: word_less_nat_alt)
    then have "unat (h + 100) = unat h + 100"
      using assms by (subst unat_add_lt) auto
    then have "\<exists>r. backfill_loop env maxH (h + 100) s' = Some r" for s'
      using le by (intro less) simp
    then show ?thesis
      by (subst backfill_loop.simps) (auto split: sum.split prod.split option.split)
  qed
qed

section \<open>Keys of outpoints\<close>

lemma append_last_sep:
  assumes "a @ c # b = a' @ c # b'" "c \<notin> set b" "c \<notin> set b'"
  shows "a = a' \<and> b = b'"
proof -
  have tw: "takeWhile (\<lambda>x. x \<noteq> c) (rev u @ c # v) = rev u" if "c \<notin> set u" for u v
    using that by (subst takeWhile_append2) auto
  have "takeWhile (\<lambda>x. x \<noteq> c) (rev b @ c # rev a) = rev b"
    "takeWhile (\<lambda>x. x \<noteq> c) (rev b' @ c # rev a') = rev b'"
    by (rule tw [OF assms(2)], rule tw [OF assms(3)])
  moreover have "rev b @ c # rev a = rev b' @ c # rev a'"
    using arg_cong [OF assms(1), of rev] by simp
  ultimately have "b = b'" by (metis rev_rev_ident)
  with assms(1) show ?thesis by simp
qed

lemma FormatUint_inj: "2 \<le> base \<Longrightarrow> base \<le> 36 \<Longrightarrow> FormatUint base m = FormatUint base n \<Longrightarrow> m = n"
  by (metis digits_value_FormatUint option.inject)

lemma outpointKey_eq:
  "outpointKey a i = outpointKey b j \<longleftrightarrow> map lower_ascii a = map lower_ascii b \<and> i = j"
proof
  assume "outpointKey a i = outpointKey b j"
  then have "map lower_ascii a = map lower_ascii b \<and> FormatUint 10 (unat i) = FormatUint 10 (unat j)"
    unfolding outpointKey_def append_Cons append_Nil
    by (rule append_last_sep) (simp_all add: FormatUint_no_colon)
  then show "map lower_ascii a = map lower_ascii b \<and> i = j"
    using FormatUint_inj [of 10 "unat i" "unat j"] by (simp add: word_unat_eq_iff)
qed (simp add: outpointKey_def)

lemma lower_hex: "map lower_ascii (hex_EncodeToString bs) = hex_EncodeToString bs"
proof -
  have "lower_ascii (digit_char n) = digit_char n" if "n < 16" for n
    using that by (auto simp: lower_ascii_def of_char_digit_char Let_def)
  then show ?thesis by (induction bs) (simp_all add: unat_u8_div16)
qed

section \<open>The verdict\<close>

lemma no_phantoms: "finite ours \<Longrightarrow> onlyDB (diffSets node ours) = [] \<longleftrightarrow> ours \<subseteq> node"
  by (auto simp: diffSets_def)

definition phantom :: "rc_env \<Rightarrow> db \<Rightarrow> string \<Rightarrow> bool" where
  "phantom env d addr =
     (case nodeUnspent (rc_transport env) addr of
        Inl e \<Rightarrow> False
      | Inr nodeSet \<Rightarrow>
          (case dbUnspent env d addr of Inl e \<Rightarrow> False | Inr ourSet \<Rightarrow> \<not> ourSet \<subseteq> nodeSet))"

lemma dbUnspent_finite: "dbUnspent env d addr = Inr ours \<Longrightarrow> finite ours"
  by (auto simp: dbUnspent_def bindE_eq_Inr split: option.splits)

lemma check_addrs_step:
  "check_addrs env d (addr # addrs) m = Inr k \<Longrightarrow>
   check_addrs env d addrs (if phantom env d addr then m + 1 else m) = Inr k"
  by (auto simp: phantom_def bindE_eq_Inr wrapE_def no_phantoms dbUnspent_finite
      split: sum.splits if_splits)

lemma check_addrs_count:
  "check_addrs env d addrs m = Inr k \<Longrightarrow> k = m + length (filter (phantom env d) addrs)"
proof (induction addrs arbitrary: m)
  case (Cons addr addrs)
  from Cons.IH [OF check_addrs_step [OF Cons.prems]] show ?case by simp
qed simp

lemma check_addrs_total:
  assumes "\<And>addr. addr \<in> set addrs \<Longrightarrow> \<exists>ours. dbUnspent env d addr = Inr ours"
  shows "\<exists>k. check_addrs env d addrs m = Inr k"
  using assms
proof (induction addrs arbitrary: m)
  case (Cons addr addrs)
  from Cons.prems obtain ours where "dbUnspent env d addr = Inr ours" by auto
  with Cons show ?case by (simp add: wrapE_def split: sum.split)
qed simp

lemma dbUnspent_rows:
  "rc_UnspentFault env (addr_text a) = None \<Longrightarrow>
   dbUnspent env d (addr_text a) =
     Inr (row_outpoint ` {r \<in> set (t_utxos d). address r = a \<and> row_unspent r})"
  by (auto simp: addr_text_def dbUnspent_def)

lemma sample_texts:
  assumes "sample_addresses env d lo hi = Inr addrs" "addr \<in> set addrs"
  shows "\<exists>r \<in> set (t_utxos d). addr = addr_text (address r)"
proof -
  have "set addrs \<subseteq> (\<lambda>r. addr_text (address r)) ` set (t_utxos d)"
    using assms(1)
    by (auto simp: sample_addresses_def bindE_eq_Inr split: option.splits
        dest!: subsetD [OF set_rows_until] in_set_takeD)
  with assms(2) show ?thesis by auto
qed

text \<open>An outpoint of a row among the keys of the node's reply.\<close>

definition lists_row :: "(string \<times> u64) list \<Rightarrow> utxo \<Rightarrow> bool" where
  "lists_row ops r \<longleftrightarrow>
     (\<exists>(txHash, index) \<in> set ops.
        map lower_ascii txHash = ''0x'' @ hex_EncodeToString (tx_hash r) \<and> index = word_of_int (sint (tx_index r)))"

lemma row_listed:
  "row_outpoint r \<in> set (map (\<lambda>(txHash, index). outpointKey txHash index) ops) \<longleftrightarrow> lists_row ops r"
proof -
  have low: "map lower_ascii (''0x'' @ hex_EncodeToString (tx_hash r)) = ''0x'' @ hex_EncodeToString (tx_hash r)"
    by (simp add: lower_hex) (simp add: lower_ascii_def)
  have key: "outpointKey h i = row_outpoint r \<longleftrightarrow>
      map lower_ascii h = ''0x'' @ hex_EncodeToString (tx_hash r) \<and> i = word_of_int (sint (tx_index r))" for h i
    unfolding row_outpoint_def outpointKey_eq low by (rule refl)
  have "row_outpoint r \<in> set (map (\<lambda>(txHash, index). outpointKey txHash index) ops) \<longleftrightarrow>
      (\<exists>(txHash, index) \<in> set ops. outpointKey txHash index = row_outpoint r)"
    unfolding set_map image_iff by (rule bex_cong [OF refl]) (simp add: split_beta eq_commute)
  then show ?thesis unfolding lists_row_def key .
qed

lemma not_phantom_iff:
  assumes "rc_UnspentFault env (addr_text a) = None"
  shows "\<not> phantom env d (addr_text a) \<longleftrightarrow>
    (\<forall>raw ops r. CallRaw (rc_transport env) ''quai_getOutpointsByAddress'' [PStr (addr_text a)] = Inr raw \<longrightarrow>
       node_outpoints raw = Inr ops \<longrightarrow> r \<in> set (t_utxos d) \<longrightarrow> address r = a \<longrightarrow> row_unspent r \<longrightarrow>
       lists_row ops r)"
proof (cases "nodeUnspent (rc_transport env) (addr_text a)")
  case (Inl e)
  then show ?thesis by (auto simp: phantom_def nodeUnspent_def bindE_def split: sum.splits)
next
  case (Inr nodes)
  then obtain raw ops where n: "CallRaw (rc_transport env) ''quai_getOutpointsByAddress'' [PStr (addr_text a)] = Inr raw"
    "node_outpoints raw = Inr ops" "nodes = set (map (\<lambda>(txHash, index). outpointKey txHash index) ops)"
    by (auto simp: nodeUnspent_def bindE_eq_Inr)
  have "\<not> phantom env d (addr_text a) \<longleftrightarrow>
      (\<forall>r \<in> set (t_utxos d). address r = a \<and> row_unspent r \<longrightarrow> row_outpoint r \<in> nodes)"
    using Inr by (auto simp: phantom_def dbUnspent_rows [OF assms])
  then show ?thesis unfolding n(3) row_listed using n(1,2) by auto
qed

lemma verify_verdict:
  assumes "sample_addresses env d lo (maxH - 50) = Inr addrs" "\<And>a. rc_UnspentFault env a = None"
  shows "verify env d lo maxH = None \<longleftrightarrow> (\<forall>addr \<in> set addrs. \<not> phantom env d addr)"
proof -
  have "\<exists>ours. dbUnspent env d addr = Inr ours" if "addr \<in> set addrs" for addr
  proof -
    from sample_texts [OF assms(1) that] obtain a where "addr = addr_text a" by auto
    with dbUnspent_rows [OF assms(2)] show ?thesis by simp
  qed
  then obtain k where k: "check_addrs env d addrs 0 = Inr k" using check_addrs_total by blast
  have "k = 0 \<longleftrightarrow> (\<forall>addr \<in> set addrs. \<not> phantom env d addr)"
    using check_addrs_count [OF k] by (simp add: filter_empty_conv)
  moreover have "verify env d lo maxH = None \<longleftrightarrow> k = 0" using assms(1) k by (simp add: verify_def wrapE_def)
  ultimately show ?thesis by simp
qed

section \<open>Concrete inputs\<close>

definition ex_rc_transport :: transport where
  "ex_rc_transport = \<lparr>t_NewRequest = None, t_Wait = (\<lambda>_. None),
     t_Do = (\<lambda>reqs k. Inr \<lparr>h_Status = 200, h_ReadErr = None,
       h_Data = Some (JArr [JObj [(''result'', JNull)]])\<rparr>)\<rparr>"

definition ex_env :: rc_env where
  "ex_env = \<lparr>rc_goquai = ex_goquai, rc_undef = (\<lambda>_. 0), rc_transport = ex_rc_transport,
     rc_fault = (\<lambda>_ _. None), rc_ConnectFault = None, rc_RangeFault = None, rc_SampleFault = None,
     rc_SampleBreak = None, rc_UnspentFault = (\<lambda>_. None)\<rparr>"

definition ex_rc_db :: db where
  "ex_rc_db = \<lparr>t_blocks = [\<lparr>br_hash = ''a1'', br_parent_hash = ''a0'', br_height = 9, br_block_time = 7,
       br_exchange_rate = None\<rparr>], t_meta_tip = Some ''a1'',
     t_utxos = [ex_row 0xA1 0 1 1 SourceCoinbaseETX 1], t_convs = []\<rparr>"

lemma ex_rc_answers: "CallRaw ex_rc_transport m ps = Inr (Some JNull)" "node_outpoints (Some JNull) = Inr []"
  by (simp_all add: CallRaw_def callOne_def client_call_def eval_nat_numeral ex_rc_transport_def http_failed_def
      decode_batch_def un_response_def response_member_def zero_response_def slice_list_def
      key_is_def lower_ascii_def node_outpoints_def)

lemma ex_rc_sample: "sample_addresses ex_env ex_rc_db 1 (60 - 50) = Inr [addr_text (replicate 20 0x80)]"
  by (simp add: sample_addresses_def bigint_arg_def bigint_args_def bigint_fits_def ex_env_def ex_rc_db_def
      ex_row_def new_utxo_def rows_until_def row_unspent_def word_le_nat_alt)

section \<open>Properties\<close>

text \<open>
  C24: Reconciliation says yes only to a table without phantoms. On the state after the backfill, the
  verdict is no error exactly if, for every sampled address the node answers for, every unspent row
  of the address is among the outpoints of the answer, compared by lower-cased transaction hash and
  index.
\<close>

theorem reconcile_verdict:
  assumes "sample_addresses env d lo (maxH - 50) = Inr addrs" "\<And>a. rc_UnspentFault env a = None"
  shows "verify env d lo maxH = None \<longleftrightarrow>
    (\<forall>a raw ops r. addr_text a \<in> set addrs \<longrightarrow>
       CallRaw (rc_transport env) ''quai_getOutpointsByAddress'' [PStr (addr_text a)] = Inr raw \<longrightarrow>
       node_outpoints raw = Inr ops \<longrightarrow> r \<in> set (t_utxos d) \<longrightarrow> address r = a \<longrightarrow> row_unspent r \<longrightarrow>
       lists_row ops r)"
proof -
  have "(\<forall>addr \<in> set addrs. \<not> phantom env d addr) \<longleftrightarrow>
      (\<forall>a. addr_text a \<in> set addrs \<longrightarrow> \<not> phantom env d (addr_text a))"
    using sample_texts [OF assms(1)] by blast
  then show ?thesis
    unfolding verify_verdict [OF assms] not_phantom_iff [OF assms(2)] by blast
qed

text \<open>The node lists nothing for the address of the row: a phantom.\<close>

theorem reconcile_verdict_witness: "verify ex_env ex_rc_db 1 60 \<noteq> None"
proof
  assume "verify ex_env ex_rc_db 1 60 = None"
  moreover have "rc_UnspentFault ex_env a = None" for a by (simp add: ex_env_def)
  ultimately have "lists_row [] (ex_row 0xA1 0 1 1 SourceCoinbaseETX 1)"
    using reconcile_verdict [OF ex_rc_sample] ex_rc_answers
    by (auto simp: ex_env_def ex_rc_db_def ex_row_def new_utxo_def row_unspent_def simp del: replicate.simps)
  then show False by (simp add: lists_row_def)
qed

text \<open>
  C38: A broken sample is taken for the whole one. The loop over the sampled addresses does not ask for
  the error that ended it, so when the connection breaks after \<open>n\<close> rows, the verdict is the one that the
  first \<open>n\<close> addresses of the sample give: no error exactly if none of these has an unspent row that the
  node does not list, whatever the addresses after them hold.
\<close>

theorem reconcile_broken_sample:
  assumes "rc_SampleBreak env = None" "sample_addresses env d lo (maxH - 50) = Inr addrs"
    and "\<And>a. rc_UnspentFault env a = None"
  shows "verify (env\<lparr>rc_SampleBreak := Some n\<rparr>) d lo maxH = None \<longleftrightarrow>
    (\<forall>a raw ops r. addr_text a \<in> set (take n addrs) \<longrightarrow>
       CallRaw (rc_transport env) ''quai_getOutpointsByAddress'' [PStr (addr_text a)] = Inr raw \<longrightarrow>
       node_outpoints raw = Inr ops \<longrightarrow> r \<in> set (t_utxos d) \<longrightarrow> address r = a \<longrightarrow> row_unspent r \<longrightarrow>
       lists_row ops r)"
proof -
  let ?env = "env\<lparr>rc_SampleBreak := Some n\<rparr>"
  have sample: "sample_addresses ?env d lo (maxH - 50) = Inr (take n addrs)"
    using assms(1,2) by (auto simp: sample_addresses_def bindE_eq_Inr rows_until_def split: option.splits)
  have fault: "rc_UnspentFault ?env a = None" for a by (simp add: assms(3))
  have "(\<forall>addr \<in> set (take n addrs). \<not> phantom ?env d addr) \<longleftrightarrow>
      (\<forall>a. addr_text a \<in> set (take n addrs) \<longrightarrow> \<not> phantom ?env d (addr_text a))"
    using sample_texts [OF sample] by blast
  moreover have "rc_transport ?env = rc_transport env" by simp
  ultimately show ?thesis
    unfolding verify_verdict [OF sample fault] not_phantom_iff [OF fault] by auto
qed

text \<open>The node lists nothing for the one address of the sample, and the break before it hides that.\<close>

theorem reconcile_broken_sample_witness:
  "verify (ex_env\<lparr>rc_SampleBreak := Some 1\<rparr>) ex_rc_db 1 60 \<noteq> None \<and>
   verify (ex_env\<lparr>rc_SampleBreak := Some 0\<rparr>) ex_rc_db 1 60 = None"
proof
  have e: "rc_SampleBreak ex_env = None" "rc_UnspentFault ex_env a = None" for a by (simp_all add: ex_env_def)
  note broken = reconcile_broken_sample [OF e(1) ex_rc_sample e(2)]
  show "verify (ex_env\<lparr>rc_SampleBreak := Some 0\<rparr>) ex_rc_db 1 60 = None" by (simp add: broken)
  show "verify (ex_env\<lparr>rc_SampleBreak := Some 1\<rparr>) ex_rc_db 1 60 \<noteq> None"
  proof
    assume "verify (ex_env\<lparr>rc_SampleBreak := Some 1\<rparr>) ex_rc_db 1 60 = None"
    then have "lists_row [] (ex_row 0xA1 0 1 1 SourceCoinbaseETX 1)"
      using broken [of 1] ex_rc_answers
      by (auto simp: ex_env_def ex_rc_db_def ex_row_def new_utxo_def row_unspent_def simp del: replicate.simps)
    then show False by (simp add: lists_row_def)
  qed
qed

text \<open>
  C36: Reconciliation ends, over the asked range. When the highest block fits a database integer and
  no more blocks are asked for than there are heights up to it, the range starts that many blocks
  below the end, but not below the lowest stored block, and the run returns, whatever fails.
\<close>

theorem reconcile_returns:
  assumes "height_range d = Inr (minH, maxH)" "unat maxH < 2 ^ 63" "0 < nBlocks"
    and "unat nBlocks \<le> unat maxH + 1"
  shows "unat (backfill_from minH maxH nBlocks) = max (unat minH) (unat maxH + 1 - unat nBlocks) \<and>
    (\<exists>r. reconcile_run env nBlocks d = Some r)"
proof -
  obtain r where "backfill_loop env maxH (backfill_from minH maxH nBlocks) (0, d) = Some r"
    using backfill_loop_returns [OF assms(2)] by blast
  then have "\<exists>r. reconcile_run env nBlocks d = Some r"
    using assms(1) by (auto simp: reconcile_run_def Let_def split: option.split prod.split)
  with backfill_from_range [OF assms(4,3)] show ?thesis by simp
qed

lemma ex_rc_range: "height_range ex_rc_db = Inr (9, 9)"
  by (simp add: height_range_def ex_rc_db_def)

theorem reconcile_returns_witness:
  "unat (backfill_from 9 9 5) = 9 \<and> (\<exists>r. reconcile_run ex_env 5 ex_rc_db = Some r)"
  using reconcile_returns [OF ex_rc_range, of 5 ex_env] by (simp add: word_less_nat_alt)

text \<open>
  C37: Asking for more blocks than there are heights makes reconciliation fail. The start of the range
  wraps around above its end: nothing is backfilled, the database stays as it is, the sampling
  query cannot be asked, and the run ends with its error instead of a verdict.
\<close>

theorem reconcile_range_wraps:
  assumes "rc_ConnectFault env = None" "rc_RangeFault env = None" "height_range d = Inr (minH, maxH)" "minH \<le> maxH"
    and "unat maxH + 1 < unat nBlocks" "unat nBlocks \<le> 2 ^ 63"
  shows "maxH < backfill_from minH maxH nBlocks \<and>
    (\<exists>e. reconcile_run env nBlocks d = Some (Some (Wrap ''sample addresses'' e), d))"
  using backfill_from_wraps(2) [OF assms(5,4)] reconcile_underflow [OF assms(1-3,5,6,4)] by simp

theorem reconcile_range_wraps_witness:
  "\<exists>e. reconcile_run ex_env 2000 ex_rc_db = Some (Some (Wrap ''sample addresses'' e), ex_rc_db)"
  using reconcile_range_wraps [OF _ _ ex_rc_range, of ex_env 2000] by (simp add: ex_env_def)

end
