(* ===== verification/Migrate.thy ===== *)
theory Migrate
  imports QiPrelude "HOL-Library.List_Lexorder" "HOL-Library.Char_ord"
begin

text \<open>
  \<open>NewPostgres\<close> and \<open>migrate\<close> of \<open>internal/store/postgres.go\<close>: the embedded SQL files run once each,
  in the order of their names, each in a transaction of its own with the row that records it. What
  a file does to the database is the parameter \<open>mg_sql\<close>; the faults of the statements are
  \<open>mg_CreateFault\<close> and, per file and statement, \<open>mg_fault\<close>. The database is the list of recorded
  names and the rest, of any type. A failed or uncommitted transaction leaves nothing behind; the
  embedded files can always be read.

  \<open>migrate_prefix\<close> says that the database is at every moment what the first so many files make of
  it, recorded as such.
\<close>

record 's mg_env =
  mg_files :: "string list"
  mg_sql :: "string \<Rightarrow> 's \<Rightarrow> err + 's"
  mg_CreateFault :: "err option"
  mg_fault :: "string \<Rightarrow> nat \<Rightarrow> err option"

record 's mg_db =
  schema_migrations :: "string list"
  mg_rest :: 's

definition migrate_one :: "'s mg_env \<Rightarrow> string \<Rightarrow> 's mg_db \<Rightarrow> err option \<times> 's mg_db" where
  "migrate_one env name d =
     (case mg_fault env name 0 of
        Some e \<Rightarrow> (Some e, d)
      | None \<Rightarrow>
          if name \<in> set (schema_migrations d) then (None, d)
          else (case mg_fault env name 1 of
             Some e \<Rightarrow> (Some e, d)
           | None \<Rightarrow>
               (case (case mg_fault env name 2 of Some e \<Rightarrow> Inl e | None \<Rightarrow> mg_sql env name (mg_rest d)) of
                  Inl e \<Rightarrow> (Some (Wrap (''migration '' @ name) e), d)
                | Inr rest \<Rightarrow>
                    (case mg_fault env name 3 of
                       Some e \<Rightarrow> (Some e, d)
                     | None \<Rightarrow>
                         (case mg_fault env name 4 of
                            Some e \<Rightarrow> (Some e, d)
                          | None \<Rightarrow>
                              (None, \<lparr>schema_migrations = schema_migrations d @ [name], mg_rest = rest\<rparr>))))))"

fun migrate_names :: "'s mg_env \<Rightarrow> string list \<Rightarrow> 's mg_db \<Rightarrow> err option \<times> 's mg_db" where
  "migrate_names env [] d = (None, d)"
| "migrate_names env (name # names) d =
     (case migrate_one env name d of
        (Some e, d') \<Rightarrow> (Some e, d')
      | (None, d') \<Rightarrow> migrate_names env names d')"

definition migrate :: "'s mg_env \<Rightarrow> 's mg_db \<Rightarrow> err option \<times> 's mg_db" where
  "migrate env d =
     (case mg_CreateFault env of
        Some e \<Rightarrow> (Some (Wrap ''migrations table'' e), d)
      | None \<Rightarrow> migrate_names env (sort (mg_files env)) d)"

definition NewPostgres :: "err option \<Rightarrow> 's mg_env \<Rightarrow> 's mg_db \<Rightarrow> err option \<times> 's mg_db" where
  "NewPostgres connect env d =
     (case connect of Some e \<Rightarrow> (Some (Wrap ''connect'' e), d) | None \<Rightarrow> migrate env d)"

section \<open>What a database may look like\<close>

text \<open>The first \<open>k\<close> files, in the order of their names, have run on \<open>s0\<close>, and are recorded.\<close>

definition migrated :: "'s mg_env \<Rightarrow> 's \<Rightarrow> nat \<Rightarrow> 's mg_db \<Rightarrow> bool" where
  "migrated env s0 k d \<longleftrightarrow>
     k \<le> length (mg_files env) \<and>
     schema_migrations d = take k (sort (mg_files env)) \<and>
     foldE (mg_sql env) (take k (sort (mg_files env))) s0 = Inr (mg_rest d)"

lemma foldE_snoc: "foldE f (xs @ [x]) s = bindE (foldE f xs s) (f x)"
  by (induction xs arbitrary: s) (auto simp: bindE_def split: sum.splits)

lemma migrate_one_known:
  "name \<in> set (schema_migrations d) \<Longrightarrow> migrate_one env name d = (mg_fault env name 0, d)"
  by (simp add: migrate_one_def split: option.split)

lemma migrate_one_new:
  "migrate_one env name d = (r, d') \<Longrightarrow> name \<notin> set (schema_migrations d) \<Longrightarrow>
   (\<exists>e. r = Some e \<and> d' = d) \<or>
   (\<exists>rest. r = None \<and> mg_sql env name (mg_rest d) = Inr rest \<and>
      d' = \<lparr>schema_migrations = schema_migrations d @ [name], mg_rest = rest\<rparr>)"
  by (auto simp: migrate_one_def split: option.splits sum.splits)

lemma migrate_one_next:
  assumes "migrated env s0 k d" "k < length (mg_files env)" "distinct (mg_files env)"
    and "migrate_one env (sort (mg_files env) ! k) d = (r, d')"
  shows "(r \<noteq> None \<and> d' = d) \<or> (r = None \<and> migrated env s0 (Suc k) d')"
proof -
  let ?ns = "sort (mg_files env)"
  have new: "?ns ! k \<notin> set (schema_migrations d)"
    using assms(1-3) by (simp add: migrated_def in_set_conv_nth nth_eq_iff_index_eq)
  have step: "take (Suc k) ?ns = take k ?ns @ [?ns ! k]"
    using assms(2) by (simp add: take_Suc_conv_app_nth)
  from migrate_one_new [OF assms(4) new] assms(1,2) step show ?thesis
    by (auto simp: migrated_def foldE_snoc)
qed

lemma migrate_names_drop:
  assumes "distinct (mg_files env)"
  shows "migrated env s0 k d \<Longrightarrow> i \<le> k \<Longrightarrow> migrate_names env (drop i (sort (mg_files env))) d = (r, d') \<Longrightarrow>
    \<exists>k' \<ge> k. migrated env s0 k' d' \<and> (r = None \<longrightarrow> k' = length (mg_files env))"
proof (induction "length (mg_files env) - i" arbitrary: i k d)
  case 0
  then show ?case by (auto simp: migrated_def)
next
  case (Suc n)
  let ?ns = "sort (mg_files env)"
  have i: "i < length (mg_files env)" and n: "n = length (mg_files env) - Suc i" using Suc.hyps(2) by auto
  then have drop: "drop i ?ns = ?ns ! i # drop (Suc i) ?ns" by (simp add: Cons_nth_drop_Suc)
  obtain q d1 where one: "migrate_one env (?ns ! i) d = (q, d1)" by (cases "migrate_one env (?ns ! i) d")
  show ?case
  proof (cases "i = k")
    case True
    with migrate_one_next [OF Suc.prems(1) _ assms, of q d1] i one
    consider "q \<noteq> None" "d1 = d" | "q = None" "migrated env s0 (Suc k) d1" by auto
    then show ?thesis
    proof cases
      case 1
      with Suc.prems one drop show ?thesis by (auto intro: exI [where x = k])
    next
      case 2
      with Suc.hyps(1) [OF n 2(2)] Suc.prems(3) one drop True show ?thesis by (auto dest: Suc_leD)
    qed
  next
    case False
    with Suc.prems(2) i have "take k ?ns ! i = ?ns ! i" "i < length (take k ?ns)" by auto
    then have "?ns ! i \<in> set (take k ?ns)" by (metis nth_mem)
    with Suc.prems(1) have "?ns ! i \<in> set (schema_migrations d)" by (simp add: migrated_def)
    then have d1: "d1 = d" using one by (simp add: migrate_one_known)
    show ?thesis
    proof (cases q)
      case None
      with Suc.hyps(1) [OF n Suc.prems(1)] Suc.prems(2,3) one drop d1 False show ?thesis by auto
    next
      case (Some e)
      with Suc.prems one drop d1 show ?thesis by (auto intro: exI [where x = k])
    qed
  qed
qed

lemma NewPostgres_prefix:
  assumes "distinct (mg_files env)" "migrated env s0 k d" "NewPostgres connect env d = (r, d')"
  shows "\<exists>k' \<ge> k. migrated env s0 k' d' \<and> (r = None \<longrightarrow> k' = length (mg_files env))"
proof -
  consider "r \<noteq> None" "d' = d" | "migrate_names env (drop 0 (sort (mg_files env))) d = (r, d')"
    using assms(3) by (auto simp: NewPostgres_def migrate_def split: option.splits)
  then show ?thesis
    using migrate_names_drop [OF assms(1,2), of 0 r d'] assms(2) by cases auto
qed

lemma migrate_names_clean:
  assumes "\<And>n k. mg_fault env n k = None" "\<And>n s. \<exists>s'. mg_sql env n s = Inr s'"
  shows "\<exists>d'. migrate_names env names d = (None, d')"
proof (induction names arbitrary: d)
  case (Cons name names)
  obtain s' where "mg_sql env name (mg_rest d) = Inr s'" using assms(2) by blast
  with Cons assms(1) show ?case by (simp add: migrate_one_def)
qed simp

text \<open>
  C22: Migrations run once each, in order. Whatever statement fails, and however often the program
  is started again, the database is what the first so many files, in the order of their names,
  make of the original one, with exactly these recorded; a start never takes one back; and when
  \<open>NewPostgres\<close> returns no error, all of them have run.
\<close>

theorem migrations_once_in_order:
  assumes "distinct (mg_files env)" "migrated env s0 k d" "NewPostgres connect env d = (r, d')"
  shows "\<exists>k' \<ge> k. schema_migrations d' = take k' (sort (mg_files env)) \<and>
    foldE (mg_sql env) (take k' (sort (mg_files env))) s0 = Inr (mg_rest d') \<and>
    (r = None \<longrightarrow> set (schema_migrations d') = set (mg_files env))"
proof -
  obtain k' where "k \<le> k'" "migrated env s0 k' d'" "r = None \<longrightarrow> k' = length (mg_files env)"
    using NewPostgres_prefix [OF assms] by blast
  then show ?thesis by (intro exI [of _ k']) (auto simp: migrated_def)
qed

definition ex_migrations :: "nat mg_env" where
  "ex_migrations = \<lparr>mg_files = [''002'', ''001''], mg_sql = (\<lambda>n s. Inr (s * 10 + length n)),
     mg_CreateFault = None, mg_fault = (\<lambda>n k. if n = ''002'' \<and> k = 4 then Some (Msg ''lost'') else None)\<rparr>"

theorem migrations_once_in_order_witness:
  "\<exists>r d' k'. NewPostgres None ex_migrations \<lparr>schema_migrations = [], mg_rest = 0\<rparr> = (r, d') \<and>
     schema_migrations d' = take k' [''001'', ''002'']"
proof -
  obtain r d' where d': "NewPostgres None ex_migrations \<lparr>schema_migrations = [], mg_rest = 0\<rparr> = (r, d')"
    by (cases "NewPostgres None ex_migrations \<lparr>schema_migrations = [], mg_rest = 0\<rparr>")
  have "migrated ex_migrations 0 0 \<lparr>schema_migrations = [], mg_rest = 0\<rparr>" "distinct (mg_files ex_migrations)"
    "sort (mg_files ex_migrations) = [''001'', ''002'']"
    by (simp_all add: migrated_def ex_migrations_def less_char_def)
  from migrations_once_in_order [OF this(2,1) d'] this(3) d' show ?thesis by auto
qed

end
