(* ===== verification/Spike.thy ===== *)
theory Spike
  imports Ledger RpcClient GoFlag "HOL-Library.AList"
begin

text \<open>
  \<open>cmd/m0spike/main.go\<close>: the survey of a block range that counts the Qi activity in its bodies.
  The program has its own JSON types, client and address test; they are modelled as it writes them.
  \<open>scanTxs\<close> is what a list of transactions adds to the counts and \<open>scan_text\<close> what it prints;
  \<open>spike_run\<close> is \<open>main\<close> after the flags, with the text of its standard output, and \<open>spike_main\<close> the
  process: its exit status (2 for a panic such as \<open>res[0]\<close> of an empty batch) and that text. What goes
  to the log is left out, the elapsed time is a parameter.

  \<open>isQiAddress_scope\<close> relates its address test to the decoder's, \<open>scanTxs_counts\<close> gives the counts
  in closed form, \<open>spike_loop_ends\<close> the end of the range loop.
\<close>

section \<open>Constants\<close>

definition externalTxType :: u64 where "externalTxType = 1"
definition qiTxType :: u64 where "qiTxType = 2"
definition coinbaseEtxType :: u64 where "coinbaseEtxType = 1"
definition conversionEtxType :: u64 where "conversionEtxType = 2"

lemmas sp_type_codes = externalTxType_def qiTxType_def coinbaseEtxType_def conversionEtxType_def

definition denominations :: "nat list" where
  "denominations = [1, 5, 10, 50, 100, 500, 1000, 5000, 10000, 20000, 100000, 1000000, 10000000, 100000000,
     1000000000]"

text \<open>What \<open>%g\<close> prints for a denomination divided by 1000: \<open>1e+06\<close> for the last one.\<close>

definition denom_g :: "nat \<Rightarrow> string" where
  "denom_g v =
     (case map_of (zip denominations
        [''0.001'', ''0.005'', ''0.01'', ''0.05'', ''0.1'', ''0.5'', ''1'', ''5'', ''10'', ''20'', ''100'',
         ''1000'', ''10000'', ''100000'', ''1e+06'']) v of Some s \<Rightarrow> s | None \<Rightarrow> [])"

definition denomStr :: "u64 \<Rightarrow> string" where
  "denomStr d =
     (if word_of_nat (length denominations) \<le> d then ''denom'' @ FormatUint 10 (unat d) @ ''(?)''
      else denom_g (denominations ! unat d) @ '' Qi'')"

section \<open>The types\<close>

record sp_outpoint =
  so_TxHash :: string
  so_Index :: u64

record sp_txin =
  si_PreviousOutPoint :: sp_outpoint
  si_PubKey :: string

record sp_txout =
  st_Address :: string
  st_Denomination :: u64
  st_Lock :: "string option"

record sp_transaction =
  sx_Hash :: string
  sx_Type :: u64
  sx_EtxType :: "u64 option"
  sx_To :: "string option"
  sx_Value :: "string option"
  sx_Input :: "string option"
  sx_Inputs :: "sp_txin list"
  sx_Outputs :: "sp_txout list"

record sp_block =
  sb_Hash :: string
  sb_Number :: "string list"
  sb_ExchangeRate :: string
  sb_Transactions :: "sp_transaction list"
  sb_OutboundEtxs :: "sp_transaction list"

definition sp_zero_outpoint :: sp_outpoint where
  "sp_zero_outpoint = \<lparr>so_TxHash = [], so_Index = 0\<rparr>"

definition sp_zero_txin :: sp_txin where
  "sp_zero_txin = \<lparr>si_PreviousOutPoint = sp_zero_outpoint, si_PubKey = []\<rparr>"

definition sp_zero_txout :: sp_txout where
  "sp_zero_txout = \<lparr>st_Address = [], st_Denomination = 0, st_Lock = None\<rparr>"

definition sp_zero_transaction :: sp_transaction where
  "sp_zero_transaction = \<lparr>sx_Hash = [], sx_Type = 0, sx_EtxType = None, sx_To = None, sx_Value = None,
     sx_Input = None, sx_Inputs = [], sx_Outputs = []\<rparr>"

definition sp_zero_block :: sp_block where
  "sp_zero_block = \<lparr>sb_Hash = [], sb_Number = [], sb_ExchangeRate = [], sb_Transactions = [], sb_OutboundEtxs = []\<rparr>"

definition un_str_ptr :: "json \<Rightarrow> err + string option" where
  "un_str_ptr = un_ptr (\<lambda>j. un_string j [])"

definition hexU64_UnmarshalJSON :: "json \<Rightarrow> err + u64" where
  "hexU64_UnmarshalJSON j =
     bindE (res_of (ParseUint (trim0x (trim_quotes (token_text j))) 16 64)) (\<lambda>v. Inr (word_of_nat v))"

definition sp_outpoint_member :: "string \<times> json \<Rightarrow> sp_outpoint \<Rightarrow> err + sp_outpoint" where
  "sp_outpoint_member m r = (case m of (k, j) \<Rightarrow>
     if key_is ''txHash'' k then bindE (un_string j (so_TxHash r)) (\<lambda>x. Inr (r\<lparr>so_TxHash := x\<rparr>))
     else if key_is ''index'' k then bindE (hexU64_UnmarshalJSON j) (\<lambda>x. Inr (r\<lparr>so_Index := x\<rparr>))
     else Inr r)"

definition sp_txin_member :: "string \<times> json \<Rightarrow> sp_txin \<Rightarrow> err + sp_txin" where
  "sp_txin_member m r = (case m of (k, j) \<Rightarrow>
     if key_is ''previousOutPoint'' k
     then bindE (un_struct sp_outpoint_member j (si_PreviousOutPoint r))
            (\<lambda>x. Inr (r\<lparr>si_PreviousOutPoint := x\<rparr>))
     else if key_is ''pubkey'' k then bindE (un_string j (si_PubKey r)) (\<lambda>x. Inr (r\<lparr>si_PubKey := x\<rparr>))
     else Inr r)"

definition sp_txout_member :: "string \<times> json \<Rightarrow> sp_txout \<Rightarrow> err + sp_txout" where
  "sp_txout_member m r = (case m of (k, j) \<Rightarrow>
     if key_is ''address'' k then bindE (un_string j (st_Address r)) (\<lambda>x. Inr (r\<lparr>st_Address := x\<rparr>))
     else if key_is ''denomination'' k
     then bindE (hexU64_UnmarshalJSON j) (\<lambda>x. Inr (r\<lparr>st_Denomination := x\<rparr>))
     else if key_is ''lock'' k then bindE (un_str_ptr j) (\<lambda>x. Inr (r\<lparr>st_Lock := x\<rparr>))
     else Inr r)"

definition sp_transaction_member :: "string \<times> json \<Rightarrow> sp_transaction \<Rightarrow> err + sp_transaction" where
  "sp_transaction_member m r = (case m of (k, j) \<Rightarrow>
     if key_is ''hash'' k then bindE (un_string j (sx_Hash r)) (\<lambda>x. Inr (r\<lparr>sx_Hash := x\<rparr>))
     else if key_is ''type'' k then bindE (hexU64_UnmarshalJSON j) (\<lambda>x. Inr (r\<lparr>sx_Type := x\<rparr>))
     else if key_is ''etxType'' k
     then bindE (un_ptr hexU64_UnmarshalJSON j) (\<lambda>x. Inr (r\<lparr>sx_EtxType := x\<rparr>))
     else if key_is ''to'' k then bindE (un_str_ptr j) (\<lambda>x. Inr (r\<lparr>sx_To := x\<rparr>))
     else if key_is ''value'' k then bindE (un_str_ptr j) (\<lambda>x. Inr (r\<lparr>sx_Value := x\<rparr>))
     else if key_is ''input'' k then bindE (un_str_ptr j) (\<lambda>x. Inr (r\<lparr>sx_Input := x\<rparr>))
     else if key_is ''inputs'' k
     then bindE (un_slice (\<lambda>j. un_struct sp_txin_member j sp_zero_txin) j)
            (\<lambda>x. Inr (r\<lparr>sx_Inputs := slice_list x\<rparr>))
     else if key_is ''outputs'' k
     then bindE (un_slice (\<lambda>j. un_struct sp_txout_member j sp_zero_txout) j)
            (\<lambda>x. Inr (r\<lparr>sx_Outputs := slice_list x\<rparr>))
     else Inr r)"

definition sp_header_member :: "string \<times> json \<Rightarrow> sp_block \<Rightarrow> err + sp_block" where
  "sp_header_member m r = (case m of (k, j) \<Rightarrow>
     if key_is ''number'' k
     then bindE (un_slice (\<lambda>j. un_string j []) j) (\<lambda>x. Inr (r\<lparr>sb_Number := slice_list x\<rparr>))
     else if key_is ''exchangeRate'' k
     then bindE (un_string j (sb_ExchangeRate r)) (\<lambda>x. Inr (r\<lparr>sb_ExchangeRate := x\<rparr>))
     else Inr r)"

definition sp_block_member :: "string \<times> json \<Rightarrow> sp_block \<Rightarrow> err + sp_block" where
  "sp_block_member m r = (case m of (k, j) \<Rightarrow>
     if key_is ''hash'' k then bindE (un_string j (sb_Hash r)) (\<lambda>x. Inr (r\<lparr>sb_Hash := x\<rparr>))
     else if key_is ''header'' k then un_struct sp_header_member j r
     else if key_is ''transactions'' k
     then bindE (un_slice (\<lambda>j. un_struct sp_transaction_member j sp_zero_transaction) j)
            (\<lambda>x. Inr (r\<lparr>sb_Transactions := slice_list x\<rparr>))
     else if key_is ''outboundEtxs'' k
     then bindE (un_slice (\<lambda>j. un_struct sp_transaction_member j sp_zero_transaction) j)
            (\<lambda>x. Inr (r\<lparr>sb_OutboundEtxs := slice_list x\<rparr>))
     else Inr r)"

section \<open>The client\<close>

text \<open>Three attempts, as in the indexer's client, but the waits cannot be cancelled and follow a failure.\<close>

fun sp_attempts ::
  "transport \<Rightarrow> rpc_request list \<Rightarrow> nat \<Rightarrow> nat \<Rightarrow> err \<Rightarrow> err + rpc_response list" where
  "sp_attempts t reqs attempt 0 lastErr = Inl lastErr"
| "sp_attempts t reqs attempt (Suc n) lastErr =
     (case t_NewRequest t of
        Some e \<Rightarrow> Inl e
      | None \<Rightarrow>
          (case t_Do t reqs attempt of
             Inl e \<Rightarrow> sp_attempts t reqs (Suc attempt) n e
           | Inr resp \<Rightarrow>
               if http_failed resp
               then sp_attempts t reqs (Suc attempt) n
                      (Msg (''status '' @ FormatUint 10 (h_Status resp) @ '': '' @
                         (case h_ReadErr resp of None \<Rightarrow> ''<nil>'' | Some e \<Rightarrow> err_text e)))
               else (case h_Data resp of
                       None \<Rightarrow> Inl (Wrap ''decode'' (Ext ''invalid character''))
                     | Some j \<Rightarrow>
                         (case un_slice un_response j of
                            Inr out \<Rightarrow> Inr (slice_list out)
                          | Inl e \<Rightarrow>
                              (case un_response j of
                                 Inl e2 \<Rightarrow> Inl (Wrap ''decode'' e)
                               | Inr one \<Rightarrow> Inr [one])))))"

definition sp_call :: "transport \<Rightarrow> rpc_request list \<Rightarrow> err + rpc_response list" where
  "sp_call t reqs = sp_attempts t reqs 0 3 (Msg [])"

definition sp_blockNumber :: "transport \<Rightarrow> err + u64" where
  "sp_blockNumber t =
     bindE (sp_call t [\<lparr>rq_ID = 1, rq_Method = ''quai_blockNumber'', rq_Params = []\<rparr>])
       (\<lambda>res. case res of
          [] \<Rightarrow> Inl (Panic ''index out of range [0]'')
        | r # _ \<Rightarrow>
            bindE (case rp_Result r of None \<Rightarrow> Inl (Ext ''unexpected end of JSON input'')
                   | Some j \<Rightarrow> un_string j [])
              (\<lambda>s. bindE (res_of (ParseUint (trim0x s) 16 64)) (\<lambda>v. Inr (word_of_nat v))))"

section \<open>The counts\<close>

definition isQiAddress :: "string \<Rightarrow> bool" where
  "isQiAddress addr =
     (if length addr < 6 then False
      else case ParseUint (take 2 (drop 4 addr)) 16 8 of (b, e) \<Rightarrow> e = None \<and> 0x80 \<le> b)"

record sp_stats =
  sp_blocks :: nat
  qiTxs :: nat
  spends :: nat
  creates :: nat
  coinbaseQi :: nat
  conversionQi :: nat
  denomCreated :: "(u64 \<times> nat) list"

definition sp_zero_stats :: sp_stats where
  "sp_zero_stats = \<lparr>sp_blocks = 0, qiTxs = 0, spends = 0, creates = 0, coinbaseQi = 0, conversionQi = 0,
     denomCreated = []\<rparr>"

text \<open>The map \<open>denomCreated\<close> as an association list; a missing key reads as 0.\<close>

definition denom_count :: "sp_stats \<Rightarrow> u64 \<Rightarrow> nat" where
  "denom_count st d = (case map_of (denomCreated st) d of None \<Rightarrow> 0 | Some n \<Rightarrow> n)"

definition count_denom :: "sp_txout \<Rightarrow> sp_stats \<Rightarrow> sp_stats" where
  "count_denom out st =
     st\<lparr>denomCreated :=
          AList.update (st_Denomination out) (denom_count st (st_Denomination out) + 1) (denomCreated st)\<rparr>"

definition scanTx :: "sp_transaction \<Rightarrow> sp_stats \<Rightarrow> sp_stats" where
  "scanTx tx st =
     (if sx_Type tx = qiTxType
      then fold count_denom (sx_Outputs tx)
             (st\<lparr>qiTxs := qiTxs st + 1, spends := spends st + length (sx_Inputs tx),
                creates := creates st + length (sx_Outputs tx)\<rparr>)
      else if sx_Type tx = externalTxType
      then (case (sx_To tx, sx_EtxType tx) of
              (Some addr, Some ty) \<Rightarrow>
                if \<not> isQiAddress addr then st
                else if ty = coinbaseEtxType then st\<lparr>coinbaseQi := coinbaseQi st + 1\<rparr>
                else if ty = conversionEtxType then st\<lparr>conversionQi := conversionQi st + 1\<rparr>
                else st
            | _ \<Rightarrow> st)
      else st)"

definition scanTxs :: "sp_transaction list \<Rightarrow> sp_stats \<Rightarrow> sp_stats" where
  "scanTxs txs st = fold scanTx txs st"

section \<open>The text\<close>

definition safePrefix :: "string \<Rightarrow> nat \<Rightarrow> string" where
  "safePrefix s n = (if length s < n then s else take n s)"

definition weiStr :: "string option \<Rightarrow> string" where
  "weiStr v =
     (case v of
        None \<Rightarrow> ''?''
      | Some s \<Rightarrow> (case int_SetString 16 (trim0x s) of None \<Rightarrow> s | Some b \<Rightarrow> int_Text 10 b))"

abbreviation nl :: string where "nl \<equiv> [CHR 0x0A]"

definition dec :: "nat \<Rightarrow> string" where "dec n = FormatUint 10 n"

definition input_text :: "sp_txin \<Rightarrow> string" where
  "input_text inp =
     ''  spend '' @ so_TxHash (si_PreviousOutPoint inp) @ '':'' @ dec (unat (so_Index (si_PreviousOutPoint inp))) @
     '' (pubkey '' @ safePrefix (si_PubKey inp) 18 @ ''...)'' @ nl"

definition output_text :: "string \<Rightarrow> nat \<Rightarrow> sp_txout \<Rightarrow> string" where
  "output_text hash i out =
     ''  create '' @ hash @ '':'' @ dec i @ '' -> '' @ st_Address out @ '' '' @ denomStr (st_Denomination out) @ '' ('' @
     (case st_Lock out of
        None \<Rightarrow> ''spendable''
      | Some l \<Rightarrow> if l = ''0x0'' then ''spendable'' else ''locked until '' @ l) @ '')'' @ nl"

definition etx_text :: "u64 \<Rightarrow> string \<Rightarrow> string \<Rightarrow> string \<Rightarrow> string option \<Rightarrow> string \<Rightarrow> string" where
  "etx_text height kind hash addr val note =
     nl @ ''block '' @ dec (unat height) @ '' '' @ kind @ '' etx '' @ hash @ '' -> '' @ addr @ '' value='' @ weiStr val @
     '' ('' @ note @ '')'' @ nl"

definition tx_text :: "bool \<Rightarrow> u64 \<Rightarrow> sp_transaction \<Rightarrow> string" where
  "tx_text verbose height tx =
     nl @ ''block '' @ dec (unat height) @ '' tx '' @ sx_Hash tx @ '' type=0x'' @ FormatUint 16 (unat (sx_Type tx)) @
     (if sx_Type tx = qiTxType
      then if \<not> verbose then []
           else nl @ ''block '' @ dec (unat height) @ '' qi tx '' @ sx_Hash tx @ '': '' @ dec (length (sx_Inputs tx)) @
                '' in, '' @ dec (length (sx_Outputs tx)) @ '' out'' @ nl @
                concat (map input_text (sx_Inputs tx)) @
                concat (map (\<lambda>(i, out). output_text (sx_Hash tx) i out)
                  (zip [0..<length (sx_Outputs tx)] (sx_Outputs tx)))
      else if sx_Type tx = externalTxType
      then (case (sx_To tx, sx_EtxType tx) of
              (Some addr, Some ty) \<Rightarrow>
                if \<not> isQiAddress addr \<or> \<not> verbose then []
                else if ty = coinbaseEtxType
                then etx_text height ''coinbase'' (sx_Hash tx) addr (sx_Value tx)
                       ''denoms derived via FindMinDenominations + lockup byte''
                else if ty = conversionEtxType
                then etx_text height ''conversion'' (sx_Hash tx) addr (sx_Value tx)
                       ''locks for ConversionLockPeriod''
                else []
            | _ \<Rightarrow> [])
      else [])"

definition scan_text :: "bool \<Rightarrow> u64 \<Rightarrow> sp_transaction list \<Rightarrow> string" where
  "scan_text verbose height txs = concat (map (tx_text verbose height) txs)"

definition progress_text :: "u64 \<Rightarrow> u64 \<Rightarrow> u64 \<Rightarrow> sp_stats \<Rightarrow> string" where
  "progress_text lo hi fin st =
     [CHR 0x0D] @ ''['' @ dec (unat (fin - lo)) @ ''/'' @ dec (unat (hi - lo)) @ ''] blocks='' @ dec (sp_blocks st) @
     '' qiTxs='' @ dec (qiTxs st) @ '' spends='' @ dec (spends st) @ '' creates='' @ dec (creates st) @
     '' coinbaseQiEtxs='' @ dec (coinbaseQi st) @ '' conversionQiEtxs='' @ dec (conversionQi st)"

definition pad_right :: "nat \<Rightarrow> string \<Rightarrow> string" where
  "pad_right n s = s @ replicate (n - length s) CHR '' ''"

definition denom_lines :: "sp_stats \<Rightarrow> string" where
  "denom_lines st =
     concat (map (\<lambda>d. if 0 < denom_count st (word_of_nat d)
         then ''  '' @ pad_right 12 (denomStr (word_of_nat d)) @ '' x'' @ dec (denom_count st (word_of_nat d)) @ nl
         else []) [0..<16])"

definition report_text :: "string \<Rightarrow> sp_stats \<Rightarrow> string" where
  "report_text elapsed st =
     nl @ nl @ ''done in '' @ elapsed @ nl @
     ''blocks ingested:        '' @ dec (sp_blocks st) @ nl @
     ''qi txs (type 0x2):      '' @ dec (qiTxs st) @ '' ('' @ dec (spends st) @ '' spends, '' @ dec (creates st) @
     '' outputs created)'' @ nl @
     ''coinbase ETXs -> Qi:    '' @ dec (coinbaseQi st) @ nl @
     ''conversion ETXs -> Qi:  '' @ dec (conversionQi st) @ nl @
     (if denomCreated st \<noteq> [] then ''denominations created by qi txs:'' @ nl @ denom_lines st else [])"

definition no_activity_text :: string where
  "no_activity_text = nl @ ''no Qi activity in this range '' @ [CHR 0xE2, CHR 0x80, CHR 0x94] @
     '' try a different --start'' @ nl"

section \<open>The range\<close>

text \<open>The state of \<open>main\<close>'s loop: the counts and the text printed so far.\<close>

type_synonym sp_state = "sp_stats \<times> string"

definition sp_result :: "bool \<Rightarrow> u64 \<Rightarrow> rpc_response \<Rightarrow> sp_state \<Rightarrow> err option \<times> sp_state" where
  "sp_result verbose n r s =
     (case rp_Error r of
        Some e \<Rightarrow> (None, s)
      | None \<Rightarrow>
          (case rp_Result r of
             None \<Rightarrow> (Some (Wrap ''block decode'' (Ext ''unexpected end of JSON input'')), s)
           | Some j \<Rightarrow>
               if j = JNull then (None, s)
               else (case un_struct sp_block_member j sp_zero_block of
                  Inl e \<Rightarrow> (Some (Wrap ''block decode'' e), s)
                | Inr b \<Rightarrow>
                    let height = n + word_of_int (rp_ID r);
                        st = (fst s)\<lparr>sp_blocks := sp_blocks (fst s) + 1\<rparr>
                    in (None, (scanTxs (sb_OutboundEtxs b) (scanTxs (sb_Transactions b) st),
                               snd s @ scan_text verbose height (sb_Transactions b) @
                               scan_text verbose height (sb_OutboundEtxs b))))))"

fun sp_results :: "bool \<Rightarrow> u64 \<Rightarrow> rpc_response list \<Rightarrow> sp_state \<Rightarrow> err option \<times> sp_state" where
  "sp_results verbose n [] s = (None, s)"
| "sp_results verbose n (r # rs) s =
     (case sp_result verbose n r s of
        (Some e, s') \<Rightarrow> (Some e, s')
      | (None, s') \<Rightarrow> sp_results verbose n rs s')"

text \<open>
  \<open>make([]rpcRequest, 0, end-n)\<close> panics when the requests, of 64 bytes each, would take more than the
  2^48 bytes of the address space. \<open>end-n\<close> is a \<open>uint64\<close>: when \<open>n + batchSize\<close> has wrapped around
  below \<open>n\<close>, it is \<open>batchSize\<close>, and if that is not too much the list is empty and the loop goes on.
\<close>

definition max_requests :: nat where "max_requests = 2 ^ 42"

definition sp_requests :: "u64 \<Rightarrow> u64 \<Rightarrow> err + rpc_request list" where
  "sp_requests n hi =
     (if max_requests < unat (hi - n) then Inl (Panic ''makeslice: cap out of range'')
      else Inr (map (\<lambda>i. \<lparr>rq_ID = int (unat (i - n)), rq_Method = ''quai_getBlockByNumber'',
             rq_Params = [PStr (hex_quantity i), PBool True]\<rparr>) (heights_from n hi)))"

text \<open>One batch of the loop.\<close>

definition spike_batch ::
  "transport \<Rightarrow> bool \<Rightarrow> u64 \<Rightarrow> u64 \<Rightarrow> u64 \<Rightarrow> u64 \<Rightarrow> sp_state \<Rightarrow> err option \<times> sp_state" where
  "spike_batch t verbose batch lo hi n s =
     (let fin = min (n + batch) hi in
      case bindE (sp_requests n fin) (sp_call t) of
        Inl e \<Rightarrow> (Some e, s)
      | Inr res \<Rightarrow>
          (case sp_results verbose n res s of
             (Some e, s') \<Rightarrow> (Some e, s')
           | (None, s') \<Rightarrow> (None, (fst s', snd s' @ progress_text lo hi fin (fst s')))))"

partial_function (option) spike_loop ::
  "transport \<Rightarrow> bool \<Rightarrow> u64 \<Rightarrow> u64 \<Rightarrow> u64 \<Rightarrow> u64 \<Rightarrow> sp_state \<Rightarrow> (err option \<times> sp_state) option" where
  "spike_loop t verbose batch lo hi n s =
     (if hi \<le> n then Some (None, s)
      else case spike_batch t verbose batch lo hi n s of
        (Some e, s') \<Rightarrow> Some (Some e, s')
      | (None, s') \<Rightarrow> spike_loop t verbose batch lo hi (n + batch) s')"

definition spike_from :: "u64 \<Rightarrow> u64 \<Rightarrow> u64 \<Rightarrow> u64" where
  "spike_from tip start count = (if start = 0 then tip - count else start)"

text \<open>\<open>log.Fatalf\<close> exits with status 1, a panic with status 2.\<close>

definition fatal_status :: "err \<Rightarrow> nat" where
  "fatal_status e = (case e of Panic s \<Rightarrow> 2 | _ \<Rightarrow> 1)"

definition spike_run ::
  "transport \<Rightarrow> string \<Rightarrow> string \<Rightarrow> u64 \<Rightarrow> u64 \<Rightarrow> u64 \<Rightarrow> bool \<Rightarrow> (nat \<times> string) option" where
  "spike_run t rpcURL elapsed start count batch verbose =
     (case sp_blockNumber t of
        Inl e \<Rightarrow> Some (fatal_status e, [])
      | Inr tip \<Rightarrow>
          let lo = spike_from tip start count;
              hi = lo + count;
              head = ''tip='' @ dec (unat tip) @ '' ingesting ['' @ dec (unat lo) @ '', '' @ dec (unat hi) @
                     '') from '' @ rpcURL @ nl
          in (case spike_loop t verbose batch lo hi lo (sp_zero_stats, head) of
                None \<Rightarrow> None
              | Some (Some e, s) \<Rightarrow> Some (fatal_status e, snd s)
              | Some (None, s) \<Rightarrow>
                  let out = snd s @ report_text elapsed (fst s) in
                  if qiTxs (fst s) = 0 \<and> coinbaseQi (fst s) = 0 \<and> conversionQi (fst s) = 0
                  then Some (1, out @ no_activity_text)
                  else Some (0, out)))"

definition spike_flags :: "(string \<times> flag_kind) list" where
  "spike_flags = [(''rpc'', StringFlag), (''start'', Uint64Flag), (''count'', Uint64Flag), (''batch'', Uint64Flag),
     (''v'', BoolFlag)]"

definition spike_main ::
  "(nat \<Rightarrow> nat \<Rightarrow> nat \<Rightarrow> nat) \<Rightarrow> (string \<Rightarrow> transport) \<Rightarrow> string \<Rightarrow> string list \<Rightarrow> (nat \<times> string) option" where
  "spike_main frac dial elapsed args =
     (case flag_Parse frac (map_of spike_flags) Map.empty args of
        Inl code \<Rightarrow> Some (code, [])
      | Inr actual \<Rightarrow>
          let rpcURL = str_flag actual ''rpc'' ''https://orchard.rpc.quai.network/cyprus1'' in
          spike_run (dial rpcURL) rpcURL elapsed (u64_flag actual ''start'' 0) (u64_flag actual ''count'' 1000)
            (u64_flag actual ''batch'' 100) (bool_flag actual ''v''))"

lemma wrapped_requests:
  assumes "n + batch < n" "n < hi" "unat hi + max_requests \<le> 2 ^ 64"
  shows "sp_requests n (min (n + batch) hi) = Inl (Panic ''makeslice: cap out of range'')"
proof -
  have "\<not> unat n + unat batch < 2 ^ LENGTH(64)"
  proof
    assume "unat n + unat batch < 2 ^ LENGTH(64)"
    then have "unat (n + batch) = unat n + unat batch" by (rule unat_add_lem [THEN iffD1])
    with assms(1) show False by (simp add: word_less_nat_alt)
  qed
  then have "max_requests < unat batch" using assms(2,3) by (simp add: word_less_nat_alt)
  moreover have "min (n + batch) hi = n + batch" using assms(1,2) by simp
  ultimately show ?thesis by (simp add: sp_requests_def)
qed

lemma spike_loop_ends:
  assumes "0 < batch" "unat hi + max_requests \<le> 2 ^ 64"
  shows "\<exists>r. spike_loop t verbose batch lo hi n s = Some r"
proof (induction "unat hi - unat n" arbitrary: n s rule: less_induct)
  case less
  show ?case
  proof (cases "hi \<le> n")
    case True
    then show ?thesis by (subst spike_loop.simps) simp
  next
    case False
    show ?thesis
    proof (cases "n + batch < n")
      case True
      with False wrapped_requests [OF True _ assms(2)]
      have "spike_batch t verbose batch lo hi n s = (Some (Panic ''makeslice: cap out of range''), s)"
        by (simp add: spike_batch_def)
      then show ?thesis using False by (subst spike_loop.simps) simp
    next
      case ok: False
      have "n \<noteq> n + batch" using assms by auto
      with ok have "n < n + batch" by (metis linorder_neqE)
      with False have "unat hi - unat (n + batch) < unat hi - unat n"
        by (simp add: word_less_nat_alt word_le_nat_alt diff_less_mono2)
      then have "\<exists>r. spike_loop t verbose batch lo hi (n + batch) s' = Some r" for s' by (rule less)
      then show ?thesis
        using False by (subst spike_loop.simps) (auto split: prod.split option.split)
    qed
  qed
qed

lemma spike_run_ends:
  assumes "0 < batch"
    and "\<And>tip. sp_blockNumber t = Inr tip \<Longrightarrow> unat (spike_from tip start count + count) + max_requests \<le> 2 ^ 64"
  shows "\<exists>r. spike_run t rpcURL elapsed start count batch verbose = Some r"
proof (cases "sp_blockNumber t")
  case (Inr tip)
  from spike_loop_ends [OF assms(1) assms(2) [OF Inr]] Inr show ?thesis
    by (auto simp: spike_run_def Let_def split: option.split)
qed (simp add: spike_run_def)

section \<open>The address test\<close>

lemma ParseUint_hex_byte:
  "ParseUint [digit_char (unat b div 16), digit_char (unat b mod 16)] 16 8 = (unat (b :: u8), None)"
proof -
  have "unat b div 16 * 16 + unat b mod 16 = unat b" by simp
  moreover have "unat b div 16 < 36" "\<not> 16 \<le> unat b div 16" using unat_u8_div16 [of b] by auto
  moreover have "unat b \<le> 255" "unat b div 16 \<le> 255" using unat_u8_lt [of b] by linarith+
  ultimately show ?thesis by (simp add: ParseUint_def)
qed

lemma isQiAddress_scope:
  assumes "length a = 20"
  shows "isQiAddress (''0x'' @ hex_EncodeToString a) \<longleftrightarrow> isQiScopeBytes a"
proof -
  obtain b0 b1 r where a: "a = b0 # b1 # r" using assms by (cases a; cases "tl a") auto
  have "isQiAddress (''0x'' @ hex_EncodeToString a) \<longleftrightarrow> 0x80 \<le> unat b1"
    by (simp add: a isQiAddress_def ParseUint_hex_byte)
  also have "\<dots> \<longleftrightarrow> isQiScopeBytes a"
    using assms by (simp add: isQiScopeBytes_def a word_le_nat_alt)
  finally show ?thesis .
qed

section \<open>The counts in closed form\<close>

lemma count_denom_sel [simp]:
  "qiTxs (count_denom out st) = qiTxs st" "spends (count_denom out st) = spends st"
  "creates (count_denom out st) = creates st" "coinbaseQi (count_denom out st) = coinbaseQi st"
  "conversionQi (count_denom out st) = conversionQi st" "sp_blocks (count_denom out st) = sp_blocks st"
  by (simp_all add: count_denom_def)

lemma count_denoms_sel [simp]:
  "qiTxs (fold count_denom outs st) = qiTxs st" "spends (fold count_denom outs st) = spends st"
  "creates (fold count_denom outs st) = creates st" "coinbaseQi (fold count_denom outs st) = coinbaseQi st"
  "conversionQi (fold count_denom outs st) = conversionQi st" "sp_blocks (fold count_denom outs st) = sp_blocks st"
  by (induction outs arbitrary: st) simp_all

lemma denom_count_count_denom:
  "denom_count (count_denom out st) d = denom_count st d + (if st_Denomination out = d then 1 else 0)"
  by (simp add: denom_count_def count_denom_def update_conv')

lemma denom_count_denoms:
  "denom_count (fold count_denom outs st) d = denom_count st d + length (filter (\<lambda>out. st_Denomination out = d) outs)"
  by (induction outs arbitrary: st) (simp_all add: denom_count_count_denom)

definition qi_txs :: "sp_transaction list \<Rightarrow> sp_transaction list" where
  "qi_txs txs = filter (\<lambda>tx. sx_Type tx = 2) txs"

definition qi_etxs :: "u64 \<Rightarrow> sp_transaction list \<Rightarrow> sp_transaction list" where
  "qi_etxs ty txs = filter (\<lambda>tx. sx_Type tx = 1 \<and> sx_EtxType tx = Some ty \<and>
     (\<exists>addr. sx_To tx = Some addr \<and> isQiAddress addr)) txs"

lemma qi_lists_Nil [simp]: "qi_txs [] = []" "qi_etxs ty [] = []"
  by (simp_all add: qi_txs_def qi_etxs_def)

lemma qi_lists_Cons:
  "qi_txs (tx # txs) = qi_txs [tx] @ qi_txs txs" "qi_etxs ty (tx # txs) = qi_etxs ty [tx] @ qi_etxs ty txs"
  by (simp_all add: qi_txs_def qi_etxs_def)

definition adds_counts :: "sp_transaction list \<Rightarrow> sp_stats \<Rightarrow> sp_stats \<Rightarrow> bool" where
  "adds_counts txs st st' \<longleftrightarrow>
     qiTxs st' = qiTxs st + length (qi_txs txs) \<and>
     spends st' = spends st + length (concat (map sx_Inputs (qi_txs txs))) \<and>
     creates st' = creates st + length (concat (map sx_Outputs (qi_txs txs))) \<and>
     coinbaseQi st' = coinbaseQi st + length (qi_etxs 1 txs) \<and>
     conversionQi st' = conversionQi st + length (qi_etxs 2 txs) \<and>
     (\<forall>d. denom_count st' d =
        denom_count st d + length (filter (\<lambda>out. st_Denomination out = d) (concat (map sx_Outputs (qi_txs txs)))))"

lemma denom_count_sel [simp]:
  "denom_count (st\<lparr>qiTxs := a, spends := b, creates := c\<rparr>) d = denom_count st d"
  "denom_count (st\<lparr>coinbaseQi := a\<rparr>) d = denom_count st d"
  "denom_count (st\<lparr>conversionQi := a\<rparr>) d = denom_count st d"
  by (simp_all add: denom_count_def)

lemma scanTx_counts: "adds_counts [tx] st (scanTx tx st)"
proof -
  consider "sx_Type tx = 2" | "sx_Type tx \<noteq> 2" "sx_Type tx \<noteq> 1" | "sx_Type tx = 1" by auto
  then show ?thesis
  proof cases
    case 1
    then show ?thesis
      by (simp add: adds_counts_def scanTx_def sp_type_codes qi_txs_def qi_etxs_def denom_count_denoms)
  next
    case 2
    then show ?thesis by (simp add: adds_counts_def scanTx_def sp_type_codes qi_txs_def qi_etxs_def)
  next
    case 3
    then show ?thesis
      by (cases "sx_To tx"; cases "sx_EtxType tx")
        (simp_all add: adds_counts_def scanTx_def sp_type_codes qi_txs_def qi_etxs_def)
  qed
qed

lemma scanTxs_counts: "adds_counts txs st (scanTxs txs st)"
proof (induction txs arbitrary: st)
  case Nil
  then show ?case by (simp add: scanTxs_def adds_counts_def)
next
  case (Cons tx txs)
  have "scanTxs (tx # txs) st = scanTxs txs (scanTx tx st)" by (simp add: scanTxs_def)
  with Cons [of "scanTx tx st"] scanTx_counts [of tx st] show ?case
    by (simp add: adds_counts_def qi_lists_Cons(1) [of tx txs] qi_lists_Cons(2) [of _ tx txs])
qed

section \<open>Property\<close>

text \<open>
  C40: The survey and the indexer agree on what a Qi address is. On the text of every 20-byte address,
  the survey's test of two hex digits is the decoder's test of the second byte; and the survey of a
  list of transactions adds exactly the numbers of Qi transactions, of their inputs and outputs, of
  the outputs of each denomination, and of coinbase and conversion ETXs to such addresses. With a
  positive batch size, and a range that does not end among the last 2^42 of all \<open>uint64\<close> heights, the
  program ends, whatever the node answers.
\<close>

theorem survey_agrees_with_decoder:
  assumes "length a = 20" "0 < batch"
    and "\<And>tip. sp_blockNumber t = Inr tip \<Longrightarrow> unat (spike_from tip start count + count) + 2 ^ 42 \<le> 2 ^ 64"
  shows "(isQiAddress (''0x'' @ hex_EncodeToString a) \<longleftrightarrow> isQiScopeBytes a) \<and>
    (\<exists>r. spike_run t rpcURL elapsed start count batch verbose = Some r) \<and>
    denom_count (scanTxs txs st) d =
      denom_count st d + length (filter (\<lambda>out. st_Denomination out = d) (concat (map sx_Outputs (qi_txs txs)))) \<and>
    qiTxs (scanTxs txs st) = qiTxs st + length (qi_txs txs) \<and>
    spends (scanTxs txs st) = spends st + length (concat (map sx_Inputs (qi_txs txs))) \<and>
    creates (scanTxs txs st) = creates st + length (concat (map sx_Outputs (qi_txs txs))) \<and>
    coinbaseQi (scanTxs txs st) = coinbaseQi st + length (qi_etxs 1 txs) \<and>
    conversionQi (scanTxs txs st) = conversionQi st + length (qi_etxs 2 txs)"
  using isQiAddress_scope [OF assms(1)] spike_run_ends [of batch t start count, OF assms(2)] assms(3)
    scanTxs_counts [of txs st]
  by (simp add: adds_counts_def max_requests_def)

text \<open>A node that cannot be reached.\<close>

definition ex_no_node :: transport where
  "ex_no_node = \<lparr>t_NewRequest = None, t_Wait = (\<lambda>_. None), t_Do = (\<lambda>reqs k. Inl (Msg ''refused''))\<rparr>"

theorem survey_agrees_with_decoder_witness:
  "isQiAddress (''0x'' @ hex_EncodeToString (replicate 20 0x80)) \<and>
   (\<exists>r. spike_run ex_no_node [] [] 5 10 100 False = Some r) \<and>
   spends (scanTxs [sp_zero_transaction\<lparr>sx_Type := 2, sx_Inputs := [sp_zero_txin]\<rparr>] sp_zero_stats) = 1"
proof -
  have "unat (spike_from tip 5 10 + 10) + 2 ^ 42 \<le> 2 ^ 64" for tip by (simp add: spike_from_def)
  from survey_agrees_with_decoder [where a = "replicate 20 0x80" and batch = 100 and st = sp_zero_stats
      and start = 5 and count = 10 and t = ex_no_node and rpcURL = "[]" and elapsed = "[]" and verbose = False
      and txs = "[sp_zero_transaction\<lparr>sx_Type := 2, sx_Inputs := [sp_zero_txin]\<rparr>]", OF _ _ this]
  show ?thesis by (simp add: qi_txs_def sp_zero_stats_def)
qed

end
