(* ===== verification/Spec2Isabelle.thy ===== *)
theory Spec2Isabelle
  imports Service Reconcile Migrate Spike RunLoop
begin

text \<open>
  A model of qi-index, an indexer for the Qi ledger of a Quai zone, and proofs of what keeps it
  correct.

  \<^bold>\<open>The program.\<close> The follower (\<open>internal/follower\<close>) receives block heads, finds the branch that
  connects each to the chain it knows, and commits one update, a rollback and a list of applied
  blocks, to a store (\<open>internal/store\<close>): the memory store, or the database, which in the same
  transaction lets the decoder (\<open>internal/decoder\<close>, with the rules of \<open>internal/qidecode\<close>) write the
  UTXO tables. The indexer (\<open>internal/indexer\<close>) feeds the follower from the node's block stream and from
  polling, catches up when it is far behind, and keeps the metrics; the node is reached through
  \<open>internal/rpcclient\<close>. The API (\<open>internal/api\<close>) answers queries from the store's read side and
  broadcasts the events of each update to WebSocket clients. \<open>cmd/qi-index\<close> loads the settings
  (\<open>internal/config\<close>) and puts the parts together; \<open>cmd/reconcile\<close> backfills a range and compares the
  tables with the node; \<open>cmd/m0spike\<close> is a survey of a block range.

  \<^bold>\<open>The theories.\<close>
  \<^item> \<open>QiPrelude\<close>: errors as values, sequencing (\<open>bindE\<close>, \<open>foldE\<close>, \<open>mapE\<close>), tables as lists of rows,
    maps keyed by a field, words. \<open>GoStd\<close>, \<open>GoJson\<close>, \<open>GoFlag\<close>: what the code uses of Go's \<open>strconv\<close>,
    \<open>encoding/hex\<close>, \<open>math/big\<close>, \<open>encoding/json\<close>, \<open>flag\<close> and \<open>time\<close>.
  \<^item> \<open>ChainTypes\<close> (\<open>chain.go\<close>): blocks, updates, linked and rooted chains. \<open>StoreSpec\<close> (\<open>store.go\<close>):
    the interface \<open>Store\<close> as a record and its contract as the locales \<open>chain_store\<close> and
    \<open>reliable_store\<close>: an abstract chain, changed only by updates that connect.
  \<^item> \<open>Follower\<close> (\<open>follower.go\<close>) and \<open>Indexer\<close> (\<open>indexer.go\<close>, the counters of \<open>metrics.go\<close>): the state
    and every method, and inside \<open>chain_store\<close> the invariant \<open>f_holds\<close> (tip, height and window are
    those of the stored chain), that \<open>Ingest\<close>, \<open>CatchUp\<close> and the loop return and keep it, and that
    the counters follow the log of updates. \<open>RunLoop\<close> (\<open>Run\<close> of \<open>indexer.go\<close>, \<open>ws.go\<close>, \<open>Serve\<close> of
    \<open>metrics.go\<close>): the loop beside the goroutine of the block stream, with the channel between them, the
    ticker and the cancellation, as a step relation that refines the sequential loop of \<open>Indexer\<close>.
  \<^item> \<open>MemoryStore\<close> (\<open>memory.go\<close>) and \<open>PostgresStore\<close> (\<open>postgres.go\<close>): the two stores, each an
    interpretation of \<open>chain_store\<close>, the database through the contract \<open>decoder_contract\<close> of the
    decoder. \<open>Migrate\<close>: the migration runner and \<open>NewPostgres\<close>.
  \<^item> \<open>QiDecode\<close> (\<open>qidecode.go\<close>), \<open>RpcBody\<close> (\<open>body.go\<close>), \<open>RpcBlocks\<close> (\<open>blocks.go\<close>), \<open>RpcClient\<close>
    (\<open>client.go\<close>, \<open>ws.go\<close>): output derivation, JSON bodies and spines, fetches, the retry loop and the
    block stream.
  \<^item> \<open>UtxoDb\<close> (the tables and transactions), \<open>Decoder\<close> (\<open>decoder.go\<close>, statement by statement, and
    the abstract events of a block it refines, \<open>emulates\<close>), \<open>Ledger\<close> (replay, undo and the UTXO set).
  \<^item> \<open>Reads\<close> (\<open>read.go\<close>), \<open>Api\<close> (\<open>handlers.go\<close>, \<open>server.go\<close>), \<open>WsHub\<close> (\<open>ws.go\<close> of the API): queries,
    handlers and routes, the hub as a step relation.
  \<^item> \<open>Config\<close> (\<open>config.go\<close>), \<open>Service\<close> (\<open>cmd/qi-index\<close>, \<open>Broadcast\<close> and \<open>Start\<close> of \<open>server.go\<close>),
    \<open>Reconcile\<close> (\<open>cmd/reconcile\<close>), \<open>Spike\<close> (\<open>cmd/m0spike\<close>), each from the arguments of \<open>main\<close> to its
    exit status. \<open>Fixtures\<close> holds concrete inputs; this theory holds the properties that span
    components.

  \<^bold>\<open>What is shown.\<close> Whatever the node serves out of one honest set of blocks, whatever statement
  fails, and in whatever order heads, reorganisations and restarts come, the database is one linked
  chain; from an empty one it is that of the log of committed updates (\<open>indexed_blocks\<close>), and its UTXO
  tables are the replay of these blocks with the bodies the node served; updates are atomic; rollback is the exact inverse of
  applying; the UTXO set is that of the ledger's rules; the loop never gets stuck, its channel is a
  bounded queue and a cancelled context lets it and the stream end. On the read side:
  balances, statistics, outpoints and events are what the tables hold, so that after any run a balance
  is the sum over the indexed chain's unspent outputs (\<open>balance_of_the_chain\<close>), and the reported events
  of a block are what the ledger's rules mark, both ways; cursors crawl the whole history; every request
  is answered, but for an empty page asked for with the limit zero and for a stored denomination that
  go-quai does not know, which panics a request and, through \<open>OnUpdate\<close>, the indexer
  (\<open>serve_answers\<close>, \<open>service_broadcasts\<close>); the hub delivers in order. Around it: settings are layered as
  documented, calls retry three times, waits are bounded, migrations run once in order, and
  reconciliation says yes only to tables without phantoms.

  \<^bold>\<open>Parameters and assumptions.\<close> go-quai's constants and functions are the record \<open>goquai\<close>; the node,
  the HTTP and WebSocket connections, the operating system and \<open>yaml.Unmarshal\<close> are arguments. A
  commit that reports an error has committed nothing. The driver refuses a \<open>uint64\<close> of \<open>2 ^ 63\<close> or
  more as a \<open>BIGINT\<close> parameter, so a theorem that promises success assumes that heights, timestamps and
  locks fit, and \<open>pg_refuses_oversized_lock\<close> shows what happens when a lock does not. A query on the
  read side sees one state of the tables, fails, or breaks off after some rows. Its error is an error value and not a
  panic. Where a theorem assumes \<open>honest N\<close>, the spines in the set \<open>N\<close> have distinct, non-empty hashes and
  heights one above their parent's; the blocks a node may serve are a set \<open>B\<close>, whose spines
  \<open>spine_of ` B\<close> are honest, and \<open>node_ok\<close> says that the node answers blocks of \<open>B\<close> and ranges within the
  asked heights. That go-quai knows every stored denomination is assumed only where a sum of values is
  promised.

  \<^bold>\<open>Loops and bounds.\<close> \<open>walkToKnown\<close> ends by the measure of the branch it may still take;
  \<open>rollbackFrom\<close>, \<open>CatchUp\<close>, the backfill and the survey's range are partial functions into \<open>option\<close>,
  with theorems that they return. \<open>crawl\<close> takes the number of requests, one more than the rows is
  enough; \<open>duration_loop\<close> takes the length of its text, of which each round reads at least one
  character. Heights, amounts and indices keep their widths; where the code's arithmetic wraps around
  (the window's floor, the range of reconciliation, the batches of the survey), so does the model's. The
  survey ends when its range does not reach into the last 2^42 heights, the largest slice of requests
  that Go allocates.

  \<^bold>\<open>Not modelled.\<close> The SQL of the migrations (the database's own) and the planner's choice of rows
  where a query has no total order; sockets and the signal handlers (their effect, an ended
  connection or a cancelled context, is a step); logging, the progress output of \<open>cmd/reconcile\<close>;
  the exposition text of the metrics; \<open>Duration.String\<close>, \<open>MarshalYAML\<close> and \<open>IsQiAddress\<close> of
  \<open>qidecode\<close>, which nothing calls. Goroutines are modelled by the interleavings they allow: one step of
  the loop or of the stream per thing it does, one step of the hub per thing that happens to a client,
  one snapshot per query.
\<close>

section \<open>Concrete states\<close>

definition ex_B :: "block set" where
  "ex_B = {ex_block1, ex_block2, ex_fork2}"

definition ex_N :: "spine set" where
  "ex_N = {spine_of ex_block1, spine_of ex_block2, spine_of ex_fork2}"

lemma ex_B_spines [simp]: "spine_of ` ex_B = ex_N"
  by (simp add: ex_B_def ex_N_def)

definition ex_fetch :: "string \<Rightarrow> err + block" where
  "ex_fetch h = (if h = ''a1'' then Inr ex_block1 else if h = ''a2'' then Inr ex_block2
                 else if h = ''b2'' then Inr ex_fork2 else Inl (Msg ''not found''))"

definition ex_range :: "u64 \<Rightarrow> u64 \<Rightarrow> err + block list" where
  "ex_range lo hi = Inr (filter (\<lambda>b. lo \<le> Height b \<and> Height b < hi) [ex_block1, ex_block2])"

lemma ex_spines:
  "spine_of ex_block1 = (''a1'', ''a0'', 1)" "spine_of ex_block2 = (''a2'', ''a1'', 2)"
  "spine_of ex_fork2 = (''b2'', ''a1'', 2)"
  by (simp_all add: ex_block1_def ex_block2_def ex_fork2_def ex_block_def spine_of_def)

lemma ex_block_sel [simp]:
  "Hash ex_block1 = ''a1''" "Hash ex_block2 = ''a2''" "Hash ex_fork2 = ''b2''"
  "ParentHash ex_block1 = ''a0''" "ParentHash ex_block2 = ''a1''" "ParentHash ex_fork2 = ''a1''"
  by (simp_all add: ex_block1_def ex_block2_def ex_fork2_def ex_block_def)

lemma ex_honest: "honest ex_N"
  by (simp add: honest_def ex_N_def ex_spines)

lemma ex_node: "node_ok ex_B ex_fetch ex_range" "node_in ex_N ex_fetch"
  by (auto simp: node_ok_def node_in_def ex_fetch_def ex_range_def ex_B_def ex_N_def split: if_splits)

definition ex_update :: chain_update where
  "ex_update = \<lparr>Rollback = [], Apply = [ex_block1, ex_block2]\<rparr>"

definition ex_reorg :: chain_update where
  "ex_reorg = \<lparr>Rollback = [ex_block2], Apply = [ex_fork2]\<rparr>"

definition ex_memory :: memory where
  "ex_memory = snd (mem_ApplyUpdate ex_update NewMemory)"

lemma ex_memory_blocks: "ex_memory = \<lparr>m_blocks = [''a1'' \<mapsto> ex_block1, ''a2'' \<mapsto> ex_block2], m_tip = ''a2''\<rparr>"
  by (simp add: ex_memory_def ex_update_def mem_ApplyUpdate_def NewMemory_def)

lemma ex_memory_holds: "mem_holds [ex_block2, ex_block1] ex_memory"
  by (auto simp: mem_holds_def ex_memory_blocks good_chain_def rooted_def ex_spines tip_hash_def)

lemma ex_memory_canon: "mem_inv ex_memory" "mem_canon ex_memory = [spine_of ex_block2, spine_of ex_block1]"
  using ex_memory_holds mem_holds_canon by (auto simp: mem_inv_def)

definition ex_follower :: "memory follower" where
  "ex_follower = \<lparr>f_store = ex_memory, f_maxDepth = 10,
     f_window = [''a2'' \<mapsto> ex_block2, ''a1'' \<mapsto> ex_block1], f_tip = ''a2'', f_tipHeight = 2, f_updates = []\<rparr>"

lemma ex_follower_new: "follower_New memory_ops ex_memory 10 = Inr ex_follower"
  by (simp add: follower_New_def mem_RecentBlocks_def mem_holds_walk [OF ex_memory_holds] ex_follower_def
      fun_upd_twist)

lemma ex_follower_holds: "f_holds mem_inv mem_canon ex_N ex_follower"
  using mem.new_holds [OF ex_memory_canon(1) ex_honest _ _ ex_follower_new]
  by (simp add: ex_memory_canon(2) ex_N_def)

definition ex_pool :: pool where
  "ex_pool = \<lparr>pool_db = empty_db, pool_decoder = Some (qi_decoder ex_goquai), pool_calls = 0,
     pool_fault = (\<lambda>_ _. None), pool_read_fault = (\<lambda>_. None)\<rparr>"

lemma pg_holds_empty:
  "pool_db s = empty_db \<Longrightarrow> pool_decoder s = Some (qi_decoder g) \<Longrightarrow>
   pg_holds (qi_decoder g) (replay g) [] s"
  by (simp add: pg_holds_def) (simp add: empty_db_def)

lemma ex_pool_holds: "pg_holds (qi_decoder ex_goquai) (replay ex_goquai) [] ex_pool"
  by (simp add: pg_holds_empty ex_pool_def)

definition ex_pool_follower :: "pool follower" where
  "ex_pool_follower = \<lparr>f_store = ex_pool, f_maxDepth = 10, f_window = Map.empty, f_tip = [],
     f_tipHeight = 0, f_updates = []\<rparr>"

lemma ex_pool_follower_new: "follower_New postgres_ops ex_pool 10 = Inr ex_pool_follower"
  using pg_holds_walk [OF ex_pool_holds, of 10]
  by (simp add: follower_New_def pg_RecentBlocks_def ex_pool_follower_def) (simp add: ex_pool_def)

lemma ex_accepted:
  "(\<exists>evs. block_events ex_goquai ex_block1 = Inr evs) \<and> bigint_fits (Timestamp ex_block1)"
  "(\<exists>evs. block_events ex_goquai ex_block2 = Inr evs) \<and> bigint_fits (Timestamp ex_block2)"
  using ex_block1_events ex_block2_events
  by (simp_all add: ex_block1_def ex_block2_def ex_block_def bigint_fits_def)

lemma ex_connects_first: "connects \<lparr>Rollback = [], Apply = [ex_block1]\<rparr> []"
  by (simp add: connects_def rolled_def applied_def)

lemma ex_pool_ingest:
  "\<exists>f. Ingest postgres_ops ex_fetch ex_block1 ex_pool_follower = Some (None, f) \<and> f_tip f = ''a1'' \<and>
     f_tipHeight f = 1 \<and> f_updates f = [\<lparr>Rollback = [], Apply = [ex_block1]\<rparr>] \<and> t_utxos (pool_db (f_store f)) = t_utxos ex_db1"
proof -
  obtain s' where s': "pg_ApplyUpdate \<lparr>Rollback = [], Apply = [ex_block1]\<rparr> ex_pool = (None, s')"
    using pg_accepts [OF ex_pool_holds, of "\<lparr>Rollback = [], Apply = [ex_block1]\<rparr>"] ex_connects_first
      ex_accepted
    by (auto simp: ex_pool_def)
  have "fits \<lparr>Rollback = [], Apply = [ex_block1]\<rparr> (chain_of [])"
    using honest_rooted [OF ex_honest] by (simp add: fits_def rolled_def applied_def moved_def ex_spines ex_N_def)
  from qi.pg_update_holds [OF ex_pool_holds this s']
  have "replay ex_goquai [ex_block1] empty_db = Inr (core (pool_db s'))"
    unfolding pg_holds_def moved_blocks_def by simp
  then have "core (pool_db s') = ex_db1" using ex_replay(1) by simp
  from arg_cong [OF this, of t_utxos] have "t_utxos (pool_db s') = t_utxos ex_db1" by (simp add: core_def)
  with s' show ?thesis
    by (simp add: Ingest_def plan_update_def ex_pool_follower_def Let_def)
qed

lemma ex_pool_run:
  "\<exists>ix. ix_run postgres_ops ex_B (NewIndexer ex_pool_follower 10) ix \<and> f_tip (ix_Follower ix) = ''a1'' \<and>
     f_tipHeight (ix_Follower ix) = 1 \<and> f_updates (ix_Follower ix) = [\<lparr>Rollback = [], Apply = [ex_block1]\<rparr>] \<and>
     t_utxos (pool_db (f_store (ix_Follower ix))) = t_utxos ex_db1"
proof -
  let ?ix0 = "NewIndexer ex_pool_follower 10"
  have start: "ix_run postgres_ops ex_B ?ix0 ?ix0"
    by (rule ix_run.start [OF ex_node(1), of "Inl (Msg [])"])
      (simp_all add: catchUpIfBehind_def follower_Tip_def NewIndexer_def ex_pool_follower_def)
  obtain f where f: "Ingest postgres_ops ex_fetch ex_block1 ex_pool_follower = Some (None, f)"
    "f_tip f = ''a1''" "f_tipHeight f = 1" "f_updates f = [\<lparr>Rollback = [], Apply = [ex_block1]\<rparr>]"
    "t_utxos (pool_db (f_store f)) = t_utxos ex_db1"
    using ex_pool_ingest by blast
  obtain ix where ix: "ix_ingest postgres_ops ex_fetch ex_range ex_block1 ?ix0 = Some ix" "ix_Follower ix = f"
    using f(1) by (simp add: ix_ingest_def NewIndexer_def too_deep_def)
  have "ex_block1 \<in> ex_B" by (simp add: ex_B_def)
  from ix_run.step [OF start ix_step.head [OF ex_node(1) this ix(1)]] ix(2) f(2-5) show ?thesis by blast
qed

text \<open>
  The blocks the indexer has committed and not rolled back, oldest first, as its log of updates says:
  the updates it passed to \<open>OnUpdate\<close>, with the blocks as the node served them.
\<close>

definition indexed_blocks :: "'s indexer \<Rightarrow> block list" where
  "indexed_blocks ix = logged_blocks (f_updates (ix_Follower ix))"

text \<open>What a run from an empty database leaves in it.\<close>

lemma run_holds:
  assumes "pool_db s0 = empty_db" "pool_decoder s0 = Some (qi_decoder g)" "honest (spine_of ` B)" "0 < depth"
    and "follower_New postgres_ops s0 depth = Inr f0"
    and "ix_run postgres_ops B (NewIndexer f0 rd) ix"
  shows "f_holds (pg_inv (qi_decoder g) (replay g)) pg_canon (spine_of ` B) (ix_Follower ix)"
    "pg_holds (qi_decoder g) (replay g) (indexed_blocks ix) (f_store (ix_Follower ix))"
    "set (indexed_blocks ix) \<subseteq> B"
proof -
  let ?R = "\<lambda>us s. pg_holds (qi_decoder g) (replay g) (logged_blocks us) s"
  have h0: "pg_holds (qi_decoder g) (replay g) [] s0" by (rule pg_holds_empty [OF assms(1,2)])
  then have i0: "pg_inv (qi_decoder g) (replay g) s0" "pg_canon s0 = []"
    using pg_holds_canon [OF h0] by (auto simp: pg_inv_def)
  have new: "f_holds (pg_inv (qi_decoder g) (replay g)) pg_canon (spine_of ` B) f0" "f_updates f0 = []"
    "f_store f0 = s0"
    using qi.pg.new_holds [OF i0(1) assms(3) _ assms(4,5)] i0(2) by simp_all
  have start: "ix_holds (pg_inv (qi_decoder g) (replay g)) pg_canon (spine_of ` B) (NewIndexer f0 rd)"
    using new by (intro qi.pg.ix_new_holds) simp_all
  have "follows ?R B (ix_Follower (NewIndexer f0 rd))"
    using h0 new(2,3) by (simp add: follows_def NewIndexer_def)
  from qi.pg.ix_run_follows [OF qi.pg_tracks assms(6) start this]
  have f: "follows ?R B (ix_Follower ix)" .
  then show "pg_holds (qi_decoder g) (replay g) (indexed_blocks ix) (f_store (ix_Follower ix))"
    by (simp add: follows_def indexed_blocks_def)
  show "set (indexed_blocks ix) \<subseteq> B"
    using f logged_blocks_applied [of "f_updates (ix_Follower ix)"] by (fastforce simp: follows_def indexed_blocks_def)
  show "f_holds (pg_inv (qi_decoder g) (replay g)) pg_canon (spine_of ` B) (ix_Follower ix)"
    using qi.pg.ix_run_holds [OF assms(6) start] by (simp add: ix_holds_def)
qed

lemma run_database:
  assumes "pool_db s0 = empty_db" "pool_decoder s0 = Some (qi_decoder g)" "honest (spine_of ` B)" "0 < depth"
    and "follower_New postgres_ops s0 depth = Inr f0"
    and "ix_run postgres_ops B (NewIndexer f0 rd) ix"
  shows "set (indexed_blocks ix) \<subseteq> B \<and> linked (chain_of (indexed_blocks ix)) \<and>
    set (t_blocks (pool_db (f_store (ix_Follower ix)))) = block_to_row ` set (indexed_blocks ix) \<and>
    replay g (indexed_blocks ix) empty_db = Inr (core (pool_db (f_store (ix_Follower ix)))) \<and>
    follower_Tip (ix_Follower ix) =
      (if indexed_blocks ix = [] then ([], 0) else (Hash (last (indexed_blocks ix)), Height (last (indexed_blocks ix))))"
proof -
  let ?bs = "indexed_blocks ix"
  note h = run_holds [OF assms]
  have "linked (chain_of ?bs)" using h(2) by (simp add: pg_holds_def good_chain_def)
  moreover have "follower_Tip (ix_Follower ix) = (if ?bs = [] then ([], 0) else (Hash (last ?bs), Height (last ?bs)))"
    using h(1) pg_holds_canon [OF h(2)]
    by (cases "?bs = []") (simp_all add: f_holds_def follower_Tip_def tip_hash_def chain_of_hd)
  ultimately show ?thesis using h(2,3) unfolding pg_holds_def by blast
qed

section \<open>Properties across components\<close>

text \<open>
  C1: Reorganisation safety of the whole indexer. Start with an empty database, and let the loop
  run with any node that answers blocks of one honest set \<open>B\<close>, any faults of the database, any
  sequence of heads, reorganisations, failed polls and catch-ups. At every moment the blocks of the
  updates the indexer has committed, less those rolled back, are blocks of \<open>B\<close> as the node served
  them, with their bodies, and linked; the rows of the database are theirs; its UTXO tables are
  exactly the replay of their bodies, in order, on empty tables; and the follower's tip is the last
  of them.
\<close>

theorem indexer_database_follows_chain:
  assumes "pool_db s0 = empty_db" "pool_decoder s0 = Some (qi_decoder g)" "honest (spine_of ` B)" "0 < depth"
    and "follower_New postgres_ops s0 depth = Inr f0"
    and "ix_run postgres_ops B (NewIndexer f0 rd) ix"
  shows "set (indexed_blocks ix) \<subseteq> B \<and> linked (chain_of (indexed_blocks ix)) \<and>
    set (t_blocks (pool_db (f_store (ix_Follower ix)))) = block_to_row ` set (indexed_blocks ix) \<and>
    replay g (indexed_blocks ix) empty_db = Inr (core (pool_db (f_store (ix_Follower ix)))) \<and>
    follower_Tip (ix_Follower ix) =
      (if indexed_blocks ix = [] then ([], 0) else (Hash (last (indexed_blocks ix)), Height (last (indexed_blocks ix))))"
  using assms by (rule run_database)

theorem indexer_database_follows_chain_witness:
  "\<exists>ix. ix_run postgres_ops ex_B (NewIndexer ex_pool_follower 10) ix \<and> indexed_blocks ix = [ex_block1] \<and>
     follower_Tip (ix_Follower ix) = (''a1'', 1) \<and>
     Inr (core (pool_db (f_store (ix_Follower ix)))) = (Inr ex_db1 :: err + db)"
proof -
  obtain ix where ix: "ix_run postgres_ops ex_B (NewIndexer ex_pool_follower 10) ix"
    "f_updates (ix_Follower ix) = [\<lparr>Rollback = [], Apply = [ex_block1]\<rparr>]"
    using ex_pool_run by blast
  have bs: "indexed_blocks ix = [ex_block1]"
    using ix(2) logged_blocks_simps(2) [of "[]"] by (simp add: indexed_blocks_def moved_blocks_def)
  have "pool_db ex_pool = empty_db" "pool_decoder ex_pool = Some (qi_decoder ex_goquai)" "honest (spine_of ` ex_B)"
    using ex_honest by (simp_all add: ex_pool_def)
  from indexer_database_follows_chain [OF this _ ex_pool_follower_new ix(1)] bs ex_replay(1)
  have "Inr (core (pool_db (f_store (ix_Follower ix)))) = (Inr ex_db1 :: err + db)"
    "follower_Tip (ix_Follower ix) = (''a1'', Height ex_block1)"
    by simp_all
  with ix(1) bs show ?thesis by auto
qed

text \<open>
  C6: The API answers for the chain. After any run from an empty database, when the reader sees the
  database the run left and go-quai knows the denominations stored in it, the balance of every address
  is the sum over the rows that the replay of the indexed blocks, with the bodies the node served,
  leaves unspent at it; the spendable part are those not locked beyond the height of the last of these
  blocks, which is the follower's tip.
\<close>

theorem balance_of_the_chain:
  assumes "pool_db s0 = empty_db" "pool_decoder s0 = Some (qi_decoder g)" "honest (spine_of ` B)" "0 < depth"
    and "follower_New postgres_ops s0 depth = Inr f0"
    and "ix_run postgres_ops B (NewIndexer f0 rd) ix"
    and "\<And>k. snap k = Shows (pool_db (f_store (ix_Follower ix)))"
    and "replay g (indexed_blocks ix) empty_db = Inr d" "denoms_known g d"
  shows "\<exists>b. GetAddressBalance g snap addr (f_tipHeight (ix_Follower ix)) = Inr b \<and>
    set (indexed_blocks ix) \<subseteq> B \<and>
    (indexed_blocks ix \<noteq> [] \<longrightarrow> f_tipHeight (ix_Follower ix) = Height (last (indexed_blocks ix))) \<and>
    Spendable b + Locked b = (\<Sum>r \<leftarrow> live_at addr d. row_value g r) \<and>
    Spendable b = (\<Sum>r \<leftarrow> filter (\<lambda>r. spendable_at (f_tipHeight (ix_Follower ix)) (lock_height r))
      (live_at addr d). row_value g r)"
proof -
  let ?db = "pool_db (f_store (ix_Follower ix))"
  note run = run_database [OF assms(1-6)]
  have d: "d = core ?db" using run assms(8) by simp
  have live: "live_at addr d = live_at addr ?db" by (simp add: d live_at_def core_def)
  have known: "denoms_known g ?db" using assms(9) by (simp add: d denoms_known_def core_def)
  have tip: "indexed_blocks ix \<noteq> [] \<longrightarrow> f_tipHeight (ix_Follower ix) = Height (last (indexed_blocks ix))"
    using conjunct2 [OF conjunct2 [OF conjunct2 [OF conjunct2 [OF run]]]]
    by (cases "indexed_blocks ix = []") (simp_all add: follower_Tip_def)
  show ?thesis
    using tip conjunct1 [OF run]
    by (simp add: live balance_closed_form [OF assms(7,7) known known] sum_list_filter_compl)
qed

theorem balance_of_the_chain_witness:
  "\<exists>ix b. ix_run postgres_ops ex_B (NewIndexer ex_pool_follower 10) ix \<and>
     GetAddressBalance ex_goquai (\<lambda>_. Shows (pool_db (f_store (ix_Follower ix)))) (replicate 20 0x80) 1 = Inr b \<and>
     Spendable b + Locked b = (\<Sum>r \<leftarrow> live_at (replicate 20 0x80) ex_db1. row_value ex_goquai r)"
proof -
  obtain ix where ix: "ix_run postgres_ops ex_B (NewIndexer ex_pool_follower 10) ix"
    "f_updates (ix_Follower ix) = [\<lparr>Rollback = [], Apply = [ex_block1]\<rparr>]" "f_tipHeight (ix_Follower ix) = 1"
    using ex_pool_run by blast
  have bs: "indexed_blocks ix = [ex_block1]"
    using ix(2) logged_blocks_simps(2) [of "[]"] by (simp add: indexed_blocks_def moved_blocks_def)
  have p: "pool_db ex_pool = empty_db" "pool_decoder ex_pool = Some (qi_decoder ex_goquai)" "honest (spine_of ` ex_B)"
    using ex_honest by (simp_all add: ex_pool_def)
  have r: "replay ex_goquai (indexed_blocks ix) empty_db = Inr ex_db1" using bs ex_replay(1) by simp
  from balance_of_the_chain [OF p _ ex_pool_follower_new ix(1), of "\<lambda>_. Shows (pool_db (f_store (ix_Follower ix)))",
      OF _ _ r ex_db1_known, of "replicate 20 0x80"] ix(1,3)
  show ?thesis by auto
qed

text \<open>
  C3: \<open>ApplyUpdate\<close> on the database is all or nothing. For an update that fits the chain, whatever
  statement fails: an error leaves the database untouched, and success means that the update
  connected and that blocks, tip and UTXO tables are those of the chain with the rolled-back blocks
  replaced by the applied ones.
\<close>

theorem pg_ApplyUpdate_atomic:
  assumes "pg_holds (qi_decoder g) (replay g) bs s" "fits u (chain_of bs)"
    and "pg_ApplyUpdate u s = (r, s')"
  shows "case r of
      None \<Rightarrow> connects u (chain_of bs) \<and> pg_holds (qi_decoder g) (replay g) (moved_blocks u bs) s'
    | Some e \<Rightarrow> pool_db s' = pool_db s"
proof (cases r)
  case None
  with qi.pg_update_holds [OF assms(1,2), of s'] assms(3) show ?thesis by simp
next
  case (Some e)
  with pg_ApplyUpdate_failed [of u s e s'] assms(3) show ?thesis by simp
qed

lemma ex_update_fits: "fits ex_update []" "connects ex_update []"
  using honest_rooted [OF ex_honest]
  by (simp_all add: fits_def connects_def rolled_def ex_update_def applied_def moved_def ex_spines ex_N_def)

theorem pg_ApplyUpdate_atomic_witness:
  "\<exists>s'. pg_ApplyUpdate ex_update ex_pool = (None, s') \<and>
     pg_holds (qi_decoder ex_goquai) (replay ex_goquai) [ex_block1, ex_block2] s'"
proof -
  have "pool_fault ex_pool (pool_calls ex_pool) = (\<lambda>_. None)" by (simp add: ex_pool_def)
  then obtain s' where s': "pg_ApplyUpdate ex_update ex_pool = (None, s')"
    using pg_accepts [OF ex_pool_holds, of ex_update] ex_update_fits ex_accepted
    by (auto simp: ex_update_def)
  with pg_ApplyUpdate_atomic [OF ex_pool_holds _ s'] ex_update_fits
  show ?thesis by (simp add: moved_blocks_def ex_update_def)
qed

text \<open>
  C15: A lock beyond \<open>BIGINT\<close> stops the indexer. If a transaction of a block has a Qi output whose lock,
  cut to 64 bits, is 2^63 or more, then no update with this block is ever committed, on whatever
  database and chain: the block is never passed.
\<close>

theorem pg_refuses_oversized_lock:
  assumes "pool_decoder s = Some (qi_decoder g)" "b \<in> set (Apply u)"
    and "ParseBody (Raw b) = Inr body" "raw \<in> set (Transactions body)" "tx_Type raw = QiTxType g"
    and "out \<in> set (tx_Outputs raw)" "decodeAddr (out_Address out) = Inr a" "isQiScopeBytes a"
    and "2 ^ 63 \<le> unat (out_lock out)"
  shows "\<exists>e. fst (pg_ApplyUpdate u s) = Some e \<and> pool_db (snd (pg_ApplyUpdate u s)) = pool_db s"
proof (cases "pg_ApplyUpdate u s")
  case (Pair r s')
  show ?thesis
  proof (cases r)
    case None
    from pg_ApplyUpdate_done [of u s s'] Pair None assms(1) obtain t0 t' where
      "pg_update_tx (Some (qi_decoder g)) u t0 = Inr t'" by auto
    from pg_update_tx_Inr [OF this] obtain ti ta where "DecodeApply g (Apply u) ti = Inr ta"
      by (auto simp: pg_decode_apply_def qi_decoder_def)
    from replay_events [OF conjunct1 [OF DecodeApply_replay [OF this]] assms(2)] obtain evs where
      "block_events g b = Inr evs" by blast
    moreover have "\<not> bigint_fits (out_lock out)" using assms(9) by (simp add: bigint_fits_def)
    ultimately show ?thesis using oversized_lock_no_events [OF assms(3-8)] by blast
  next
    case (Some e)
    with Pair pg_ApplyUpdate_failed [of u s e s'] show ?thesis by simp
  qed
qed

definition ex_locked_out :: raw_txout where
  "ex_locked_out = \<lparr>out_Address = ex_qi_addr, out_Denomination = 0,
     out_Lock = Some (HexBigInt (Some (2 ^ 63)))\<rparr>"

definition ex_locked_block :: block where
  "ex_locked_block = ex_block 1 ''a1'' ''a0'' [JObj
     [(''hash'', JStr (ex_hash 0xB2)), (''type'', JStr ''0x2''),
      (''outputs'', JArr [JObj [(''address'', JStr ex_qi_addr), (''denomination'', JStr ''0x0''),
         (''lock'', JStr ''0x8000000000000000'')]])]]"

definition ex_raw_locked :: raw_tx where
  "ex_raw_locked = zero_tx\<lparr>tx_Hash := ex_hash 0xB2, tx_Type := 2, tx_Outputs := [ex_locked_out]\<rparr>"

lemma ex_locked_body:
  "ParseBody (Raw ex_locked_block) = Inr \<lparr>Transactions = [ex_raw_locked], OutboundETXs = []\<rparr>"
proof -
  have "hexBigInt_UnmarshalJSON (JStr ''0x8000000000000000'') = Inr (HexBigInt (Some (2 ^ 63)))"
    by (simp add: hexBigInt_UnmarshalJSON_def trim_quotes_def TrimPrefix_def digit_val_def int_SetString_def)
  then show ?thesis
    by (simp add: ex_locked_block_def ex_block_def ex_body_txs tx_member_def txout_member_def key_is_def
        lower_ascii_def zero_txout_def zero_tx_def slice_list_def ex_locked_out_def ex_raw_locked_def)
qed

theorem pg_refuses_oversized_lock_witness:
  "\<exists>e. fst (pg_ApplyUpdate \<lparr>Rollback = [], Apply = [ex_locked_block]\<rparr> ex_pool) = Some e"
proof -
  let ?u = "\<lparr>Rollback = [], Apply = [ex_locked_block]\<rparr>"
  have "pool_decoder ex_pool = Some (qi_decoder ex_goquai)" "ex_locked_block \<in> set (Apply ?u)"
    by (simp_all add: ex_pool_def)
  from pg_refuses_oversized_lock [OF this ex_locked_body, of ex_raw_locked ex_locked_out "replicate 20 0x80"]
  show ?thesis
    by (auto simp: ex_raw_locked_def ex_locked_out_def out_lock_def big_Uint64_def)
qed

text \<open>
  A connected update whose blocks decode, and whose timestamps fit into a \<open>BIGINT\<close>, is accepted by the
  database when no statement fails.
\<close>

theorem pg_ApplyUpdate_accepts:
  assumes "pg_holds (qi_decoder g) (replay g) bs s" "connects u (chain_of bs)"
    and "pool_fault s (pool_calls s) = (\<lambda>_. None)"
    and "\<And>b. b \<in> set (Apply u) \<Longrightarrow> (\<exists>evs. block_events g b = Inr evs) \<and> bigint_fits (Timestamp b)"
  shows "\<exists>s'. pg_ApplyUpdate u s = (None, s')"
  using assms by (rule pg_accepts)

theorem pg_ApplyUpdate_accepts_witness: "\<exists>s'. pg_ApplyUpdate ex_update ex_pool = (None, s')"
proof (rule pg_ApplyUpdate_accepts [OF ex_pool_holds])
  show "connects ex_update (chain_of [])" using ex_update_fits by simp
  show "pool_fault ex_pool (pool_calls ex_pool) = (\<lambda>_. None)" by (simp add: ex_pool_def)
  show "(\<exists>evs. block_events ex_goquai b = Inr evs) \<and> bigint_fits (Timestamp b)"
    if "b \<in> set (Apply ex_update)" for b
    using that ex_accepted by (auto simp: ex_update_def)
qed

text \<open>
  C34: The tip survives the database. After a successful update, \<open>Tip\<close> (when it can read) returns
  the last applied block with every column of its row, timestamp and exchange rate included.
\<close>

theorem pg_Tip_after_update:
  assumes "pg_holds (qi_decoder g) (replay g) bs s" "fits u (chain_of bs)"
    and "pg_ApplyUpdate u s = (None, s')" "pg_Tip s' = Inr r"
  shows "r = ((last (Apply u))\<lparr>Raw := None\<rparr>, True)"
proof -
  have "Apply u \<noteq> []" using pg_ApplyUpdate_done [OF assms(3)] by simp
  then have t: "moved_blocks u bs \<noteq> []" "last (moved_blocks u bs) = last (Apply u)"
    by (simp_all add: moved_blocks_def)
  have "pg_holds (qi_decoder g) (replay g) (moved_blocks u bs) s'"
    using qi.pg_update_holds [OF assms(1-3)] by blast
  from pg_holds_tip [OF this] t assms(4) show ?thesis
    by (auto simp: pg_Tip_def row_block_of split: option.splits)
qed

theorem pg_Tip_after_update_witness:
  "\<exists>s'. pg_ApplyUpdate ex_update ex_pool = (None, s') \<and> pg_Tip s' = Inr (ex_block2\<lparr>Raw := None\<rparr>, True)"
proof -
  have "pool_fault ex_pool (pool_calls ex_pool) = (\<lambda>_. None)" by (simp add: ex_pool_def)
  then obtain s' where s': "pg_ApplyUpdate ex_update ex_pool = (None, s')"
    using pg_accepts [OF ex_pool_holds, of ex_update] ex_update_fits ex_accepted
    by (auto simp: ex_update_def)
  have "pool_read_fault s' = (\<lambda>_. None)"
    using s' by (auto simp: pg_ApplyUpdate_def ex_pool_def split: if_splits prod.splits)
  then have "\<exists>r. pg_Tip s' = Inr r" by (cases "tip_row (pool_db s')") (simp_all add: pg_Tip_def del: split_paired_Ex)
  then obtain r where "pg_Tip s' = Inr r" by blast
  with pg_Tip_after_update [OF ex_pool_holds _ s'] ex_update_fits s' show ?thesis
    by (auto simp: ex_update_def)
qed

section \<open>The memory store and the follower\<close>

text \<open>
  C20: The memory store accepts exactly the updates that connect. On a store that holds the chain
  \<open>cs\<close>, an update that fits is accepted if and only if it connects; then the store holds the applied
  blocks on top of what the rollback left, and a refused update changes nothing.
\<close>

theorem mem_ApplyUpdate_contract:
  assumes "mem_holds cs m" "fits u (map spine_of cs)" "mem_ApplyUpdate u m = (r, m')"
  shows "case r of
      None \<Rightarrow> connects u (map spine_of cs) \<and> mem_holds (rev (Apply u) @ drop (length (Rollback u)) cs) m'
    | Some e \<Rightarrow> \<not> connects u (map spine_of cs) \<and> m' = m"
proof (cases r)
  case None
  then have con: "connects u (map spine_of cs)"
    using mem_ApplyUpdate_iff [OF assms(1,2)] assms(3) by simp
  with mem_holds_moved [OF assms(1,2) con] None assms(3) show ?thesis by simp
next
  case (Some e)
  with mem_ApplyUpdate_iff [OF assms(1,2)] mem_ApplyUpdate_failed [of u m e m'] assms(3)
  show ?thesis by simp
qed

lemma ex_reorg_fits: "fits ex_reorg (map spine_of [ex_block2, ex_block1])"
  by (rule honest_fits [OF ex_honest]) (simp_all add: ex_reorg_def applied_def rolled_def ex_N_def)

theorem mem_ApplyUpdate_contract_witness:
  "\<exists>m'. mem_ApplyUpdate ex_reorg ex_memory = (None, m') \<and> mem_holds [ex_fork2, ex_block1] m'"
proof -
  have "fst (mem_ApplyUpdate ex_reorg ex_memory) = None"
    by (simp add: mem_ApplyUpdate_def ex_memory_blocks ex_reorg_def)
  then obtain m' where m': "mem_ApplyUpdate ex_reorg ex_memory = (None, m')"
    by (metis prod.collapse)
  with mem_ApplyUpdate_contract [OF ex_memory_holds ex_reorg_fits m'] show ?thesis
    by (simp add: ex_reorg_def)
qed

text \<open>
  C21: The two stores agree. When both hold the same chain, an update that fits and whose blocks
  decode and have timestamps that fit into a \<open>BIGINT\<close> is accepted by the memory store if and only if
  the database accepts it.
\<close>

theorem stores_agree:
  assumes "mem_holds cs m" "pg_holds (qi_decoder g) (replay g) bs s" "map spine_of cs = chain_of bs"
    and "fits u (chain_of bs)" "pool_fault s (pool_calls s) = (\<lambda>_. None)"
    and "\<And>b. b \<in> set (Apply u) \<Longrightarrow> (\<exists>evs. block_events g b = Inr evs) \<and> bigint_fits (Timestamp b)"
  shows "fst (mem_ApplyUpdate u m) = None \<longleftrightarrow> fst (pg_ApplyUpdate u s) = None"
proof -
  have "fst (mem_ApplyUpdate u m) = None \<longleftrightarrow> connects u (chain_of bs)"
    using mem_ApplyUpdate_iff [OF assms(1), of u] assms(3,4) by simp
  moreover have "fst (pg_ApplyUpdate u s) = None \<longleftrightarrow> connects u (chain_of bs)"
  proof
    assume "fst (pg_ApplyUpdate u s) = None"
    then obtain s' where "pg_ApplyUpdate u s = (None, s')" by (metis prod.collapse)
    moreover have "pg_inv (qi_decoder g) (replay g) s" "pg_canon s = chain_of bs"
      using assms(2) pg_holds_canon by (auto simp: pg_inv_def)
    ultimately show "connects u (chain_of bs)"
      using qi.pg.apply_done [of g s u s'] assms(4) by simp
  next
    assume "connects u (chain_of bs)"
    from pg_accepts [OF assms(2) this assms(5,6)] show "fst (pg_ApplyUpdate u s) = None" by auto
  qed
  ultimately show ?thesis by simp
qed

theorem stores_agree_witness:
  "fst (mem_ApplyUpdate ex_update NewMemory) = None \<longleftrightarrow> fst (pg_ApplyUpdate ex_update ex_pool) = None"
proof (rule stores_agree [OF _ ex_pool_holds])
  show "mem_holds [] NewMemory" by (simp add: mem_holds_def NewMemory_def tip_hash_def)
  show "fits ex_update (chain_of [])" using ex_update_fits by simp
  show "pool_fault ex_pool (pool_calls ex_pool) = (\<lambda>_. None)" by (simp add: ex_pool_def)
  show "(\<exists>evs. block_events ex_goquai b = Inr evs) \<and> bigint_fits (Timestamp b)"
    if "b \<in> set (Apply ex_update)" for b
    using that ex_accepted by (auto simp: ex_update_def)
qed simp

text \<open>
  C8: \<open>Ingest\<close> always returns and never breaks the view. Whatever the node answers (out of the
  honest set) and whatever the store does: on success the head is in the stored chain, and it is
  the new tip unless it was already in the window; on an error the chain, the window, the tip and
  the log of updates are as before.
\<close>

theorem Ingest_safe:
  assumes "f_holds mem_inv mem_canon N f" "node_in N fetch" "spine_of b \<in> N"
  shows "\<exists>r f'. Ingest memory_ops fetch b f = Some (r, f') \<and> f_holds mem_inv mem_canon N f' \<and>
    (case r of
       None \<Rightarrow> Hash b \<in> sp_hash ` set (mem_canon (f_store f')) \<and>
               (f_window f (Hash b) = None \<longrightarrow> follower_Tip f' = (Hash b, Height b)) \<and>
               (f_window f (Hash b) \<noteq> None \<longrightarrow> f' = f)
     | Some e \<Rightarrow> mem_canon (f_store f') = mem_canon (f_store f) \<and> f_window f' = f_window f \<and>
               follower_Tip f' = follower_Tip f \<and> f_updates f' = f_updates f)"
proof (cases "f_window f (Hash b) = None")
  case False
  with assms(1) mem.ingest_known [of f b fetch] mem.holds_known_iff [OF assms(1) False] show ?thesis
    by auto
next
  case True
  obtain r f' where f': "Ingest memory_ops fetch b f = Some (r, f')" "f_holds mem_inv mem_canon N f'"
    using mem.ingest_total [OF assms] by blast
  show ?thesis
  proof (cases r)
    case None
    with mem.ingest_moves_tip [OF assms True] f' have
      "follower_Tip f' = (Hash b, Height b)" "mem_canon (f_store f') \<noteq> []"
      "hd (mem_canon (f_store f')) = spine_of b"
      by auto
    moreover from this(2,3) have "Hash b \<in> sp_hash ` set (mem_canon (f_store f'))"
      by (metis hd_in_set imageI spine_of_sel(1))
    ultimately show ?thesis using f' None True by simp
  next
    case (Some e)
    with mem.ingest_error_keeps [OF assms] f' True show ?thesis by (simp add: follower_Tip_def)
  qed
qed

theorem Ingest_safe_witness:
  "\<exists>r f'. Ingest memory_ops ex_fetch ex_fork2 ex_follower = Some (r, f') \<and> f_holds mem_inv mem_canon ex_N f'"
  using Ingest_safe [OF ex_follower_holds ex_node(2), of ex_fork2] by (auto simp: ex_N_def)

text \<open>
  C7: Reorganisations are performed. When the node serves the ancestry \<open>bs\<close> of a new head down to a
  child of a block of the window, at most \<open>maxDepth\<close> blocks long, \<open>Ingest\<close> succeeds, and the stored
  chain becomes exactly this branch on top of the chain from the common ancestor down.
\<close>

theorem Ingest_performs_reorg:
  assumes "f_holds mem_inv mem_canon N f" "node_in N fetch" "spine_of (hd bs) \<in> N"
    and "ancestry fetch bs" "bs \<noteq> []" "length bs \<le> f_maxDepth f" "linked (map spine_of bs)"
    and "f_window f (Hash (hd bs)) = None"
    and "\<And>b. b \<in> set (butlast bs) \<Longrightarrow> f_window f (ParentHash b) = None"
    and "f_window f (ParentHash (last bs)) \<noteq> None"
  shows "\<exists>f' j. Ingest memory_ops fetch (hd bs) f = Some (None, f') \<and> f_holds mem_inv mem_canon N f' \<and>
    j < length (mem_canon (f_store f)) \<and> sp_hash (mem_canon (f_store f) ! j) = ParentHash (last bs) \<and>
    mem_canon (f_store f') = map spine_of bs @ drop j (mem_canon (f_store f))"
  using assms by (rule mem.ingest_reorg)

theorem Ingest_performs_reorg_witness:
  "\<exists>f' j. Ingest memory_ops ex_fetch ex_fork2 ex_follower = Some (None, f') \<and>
     mem_canon (f_store f') = spine_of ex_fork2 # drop j (mem_canon ex_memory)"
  using Ingest_performs_reorg [OF ex_follower_holds ex_node(2), of "[ex_fork2]"]
  by (auto simp: ex_N_def ex_follower_def)

text \<open>
  C17: A reorganisation deeper than \<open>maxDepth\<close> is refused. When the node serves \<open>maxDepth\<close> blocks of
  ancestry and no parent of any of them is in the window, \<open>Ingest\<close> returns an error that
  \<open>errors.Is\<close> recognises as \<open>ErrReorgTooDeep\<close>, and follower and store are untouched, for any store.
\<close>

theorem Ingest_refuses_deep_reorg:
  assumes "f_tip f \<noteq> []" "ancestry fetch bs" "bs \<noteq> []" "length bs = f_maxDepth f"
    and "ParentHash (hd bs) \<noteq> f_tip f" "f_window f (Hash (hd bs)) = None"
    and "\<And>b. b \<in> set bs \<Longrightarrow> f_window f (ParentHash b) = None"
  shows "\<exists>e. Ingest ops fetch (hd bs) f = Some (Some e, f) \<and> errors_Is e ErrReorgTooDeep"
proof -
  have "length bs + length ([] :: block list) = f_maxDepth f" using assms(4) by simp
  then obtain s where
    "walkToKnown fetch (f_window f) (f_maxDepth f) [hd bs] (ParentHash (hd bs)) = Inl (Wrap s ErrReorgTooDeep)"
    using walkToKnown_too_deep [of fetch bs "[]" "f_maxDepth f" "f_window f"] assms(2,3,7) by auto
  with assms(1,5,6) show ?thesis by (simp add: Ingest_def plan_update_def)
qed

definition ex_orphan :: block where "ex_orphan = ex_block 2 ''c2'' ''c1'' []"

theorem Ingest_refuses_deep_reorg_witness:
  "\<exists>e. Ingest memory_ops ex_fetch ex_orphan (ex_follower\<lparr>f_maxDepth := 1\<rparr>) =
     Some (Some e, ex_follower\<lparr>f_maxDepth := 1\<rparr>) \<and> errors_Is e ErrReorgTooDeep"
  using Ingest_refuses_deep_reorg [of "ex_follower\<lparr>f_maxDepth := 1\<rparr>" ex_fetch "[ex_orphan]" memory_ops]
  by (simp add: ex_follower_def ex_orphan_def ex_block_def)

text \<open>
  C18: \<open>CatchUp\<close> ends. For every target, when the ranges come back sorted and inside the asked
  heights, the loop returns, and if it returns no error the tip has reached the target or the node
  answered an empty range for the next heights.
\<close>

theorem CatchUp_returns:
  assumes "f_holds mem_inv mem_canon N f" "node_in N fetch"
    and "\<And>lo hi bs. rf lo hi = Inr bs \<Longrightarrow>
      sorted (map Height bs) \<and> (\<forall>b \<in> set bs. spine_of b \<in> N \<and> lo \<le> Height b \<and> Height b < hi)"
  shows "\<exists>r f'. CatchUp memory_ops fetch rf target f = Some (r, f') \<and> f_holds mem_inv mem_canon N f' \<and>
    (r = None \<longrightarrow> target \<le> f_tipHeight f' \<or>
       rf (f_tipHeight f' + 1) (min (f_tipHeight f' + 1 + 100) (target + 1)) = Inr [])"
  using assms by (rule mem.catchUp_returns)

theorem CatchUp_returns_witness:
  "\<exists>r f'. CatchUp memory_ops ex_fetch ex_range 2 ex_follower = Some (r, f') \<and> f_holds mem_inv mem_canon ex_N f'"
proof -
  have "sorted (map Height bs) \<and> (\<forall>b \<in> set bs. spine_of b \<in> ex_N \<and> lo \<le> Height b \<and> Height b < hi)"
    if "ex_range lo hi = Inr bs" for lo hi bs
    using node_ok_range [OF ex_node(1) that] by simp
  from CatchUp_returns [OF ex_follower_holds ex_node(2) this, where target = 2] show ?thesis by blast
qed

text \<open>
  C26: Restart loses nothing. A follower built on the database a running follower left behind
  starts at the same tip and satisfies the invariant, so the indexer resumes where it was.
\<close>

theorem follower_restart:
  assumes "f_holds (pg_inv (qi_decoder g) (replay g)) pg_canon N f" "0 < depth"
    and "follower_New postgres_ops (f_store f) depth = Inr f'"
  shows "f_holds (pg_inv (qi_decoder g) (replay g)) pg_canon N f' \<and> follower_Tip f' = follower_Tip f"
proof -
  from assms(1) have i: "pg_inv (qi_decoder g) (replay g) (f_store f)" "honest N"
    "set (pg_canon (f_store f)) \<subseteq> N"
    by (auto simp: f_holds_def)
  from qi.pg.new_holds [OF i assms(2,3)] have
    f': "f_holds (pg_inv (qi_decoder g) (replay g)) pg_canon N f'" "f_store f' = f_store f"
    by auto
  with assms(1) show ?thesis by (simp add: f_holds_def follower_Tip_def)
qed

lemma ex_pool_follower_holds:
  "f_holds (pg_inv (qi_decoder ex_goquai) (replay ex_goquai)) pg_canon ex_N ex_pool_follower"
proof -
  have "pg_inv (qi_decoder ex_goquai) (replay ex_goquai) ex_pool" "pg_canon ex_pool = []"
    using ex_pool_holds pg_holds_canon [OF ex_pool_holds] by (auto simp: pg_inv_def)
  with qi.pg.new_holds [OF _ ex_honest _ _ ex_pool_follower_new] show ?thesis by simp
qed

theorem follower_restart_witness:
  "\<exists>f. follower_New postgres_ops (f_store ex_pool_follower) 10 = Inr f \<and>
     follower_Tip f = follower_Tip ex_pool_follower"
  using follower_restart [OF ex_pool_follower_holds, of 10 ex_pool_follower] ex_pool_follower_new
  by (simp add: ex_pool_follower_def)

section \<open>The indexer loop\<close>

text \<open>
  C19: One iteration always ends. From every state the loop can be in, handling a head returns, with
  the view intact, whether the head is applied, refused, or starts a catch-up.
\<close>

theorem indexer_iteration_returns:
  assumes "ix_holds (pg_inv (qi_decoder g) (replay g)) pg_canon (spine_of ` B) ix" "node_ok B fetch rf"
    and "head \<in> B"
  shows "\<exists>ix'. ix_ingest postgres_ops fetch rf head ix = Some ix' \<and>
    ix_holds (pg_inv (qi_decoder g) (replay g)) pg_canon (spine_of ` B) ix'"
  using assms by (rule qi.pg.ix_ingest_holds)

theorem indexer_iteration_returns_witness:
  "\<exists>ix'. ix_ingest postgres_ops ex_fetch ex_range ex_block1 (NewIndexer ex_pool_follower 10) = Some ix'"
proof -
  have "ix_holds (pg_inv (qi_decoder ex_goquai) (replay ex_goquai)) pg_canon (spine_of ` ex_B)
      (NewIndexer ex_pool_follower 10)"
    unfolding ex_B_spines by (rule qi.pg.ix_new_holds [OF ex_pool_follower_holds]) (simp add: ex_pool_follower_def)
  from indexer_iteration_returns [OF this ex_node(1), of ex_block1] show ?thesis by (auto simp: ex_B_def)
qed

text \<open>
  C32: The metrics tell the truth. At every moment of a run the applied-blocks counter is the number
  of blocks in all committed updates, the reorganisation counter and depths are those of the
  updates with a rollback, and after the first update the tip-height gauge is the follower's tip.
\<close>

theorem indexer_metrics:
  assumes "f_holds (pg_inv (qi_decoder g) (replay g)) pg_canon (spine_of ` B) f" "f_updates f = []"
    and "ix_run postgres_ops B (NewIndexer f rd) ix"
  shows "BlocksApplied (ix_counters ix) = sum_list (map (length \<circ> Apply) (f_updates (ix_Follower ix))) \<and>
    Reorgs (ix_counters ix) = length (filter (\<lambda>u. Rollback u \<noteq> []) (f_updates (ix_Follower ix))) \<and>
    (f_updates (ix_Follower ix) \<noteq> [] \<longrightarrow> TipHeight (ix_counters ix) = f_tipHeight (ix_Follower ix))"
  using qi.pg.ix_run_holds [OF assms(3) qi.pg.ix_new_holds [OF assms(1,2)]]
  by (auto simp: ix_holds_def tip_logged_def update_counters_def)

theorem indexer_metrics_witness:
  "\<exists>ix. ix_run postgres_ops ex_B (NewIndexer ex_pool_follower 10) ix \<and> f_tipHeight (ix_Follower ix) = 1 \<and>
     BlocksApplied (ix_counters ix) = sum_list (map (length \<circ> Apply) (f_updates (ix_Follower ix)))"
proof -
  obtain ix where ix: "ix_run postgres_ops ex_B (NewIndexer ex_pool_follower 10) ix"
    "f_tipHeight (ix_Follower ix) = 1"
    using ex_pool_run by blast
  with indexer_metrics [OF ex_pool_follower_holds [folded ex_B_spines] _ ix(1)] show ?thesis
    by (auto simp: ex_pool_follower_def)
qed

section \<open>The service\<close>

text \<open>
  C12: From the command line to the broadcast. Whatever arguments, environment and file \<open>main\<close> starts
  from, once it runs over a database in order the indexer's invariant holds at every moment of the
  concurrent loop. Every update of the run has a last applied block, the latest of these is the block at
  the follower's tip, and the callback on an update, whatever its queries see, panics only and exactly
  when the events it has read have an output of a denomination that go-quai does not know. (The loop of
  the model goes on after such a panic, where the process ends.)
\<close>

theorem service_broadcasts:
  assumes "qi_main g os newPg fetch rf latest args = Some (RunsPg st0 api)" "node_ok B fetch rf"
    and "\<And>b. latest = Inr b \<Longrightarrow> b \<in> B" "honest (spine_of ` B)"
    and "\<And>url pg. newPg url = Inr pg \<Longrightarrow>
      pg_inv (qi_decoder g) (replay g) (SetDecoder (qi_decoder g) pg) \<and>
      set (pg_canon (SetDecoder (qi_decoder g) pg)) \<subseteq> spine_of ` B"
    and "(run_step postgres_ops B undef)\<^sup>*\<^sup>* st0 st"
  shows "ix_holds (pg_inv (qi_decoder g) (replay g)) pg_canon (spine_of ` B) (rn_ix st) \<and>
    (\<forall>u \<in> set (f_updates (ix_Follower (rn_ix st))). Apply u \<noteq> [] \<and>
       (\<forall>snap h e. on_update g snap u h = Inl e \<longleftrightarrow>
          e = NilDeref \<and> (\<exists>ev. GetBlockUTXOEvents snap (Height (last (Apply u))) = Inr ev \<and>
            \<not> known_utxos g (ev_Created ev @ ev_Spent ev @ ev_Trimmed ev)))) \<and>
    (f_updates (ix_Follower (rn_ix st)) \<noteq> [] \<longrightarrow>
       Height (last (Apply (last (f_updates (ix_Follower (rn_ix st)))))) = f_tipHeight (ix_Follower (rn_ix st)))"
proof -
  from qi_main_runs [OF assms(1)] obtain cfg ix0 where
    cfg: "LoadFollow os (tl args) = Loaded (Inr cfg)" "service_run g newPg cfg = Inr (PgService ix0 api)"
      "run_start postgres_ops fetch rf latest (WSURL cfg) ix0 = Some (Inr st0)"
    by blast
  have "0 < Follow.ReorgDepth cfg" using load_valid [OF cfg(1)] by simp
  note i0 = service_starts [OF cfg(2) this assms(4,5)]
  have "run_reach postgres_ops B undef (WSURL cfg) ix0 st"
    by (rule run_reach_steps [OF assms(6) run_reach.start [OF assms(2,3) cfg(3)]])
  from qi.pg.ix_run_holds [OF run_reach_ix [OF this] i0]
  have i: "ix_holds (pg_inv (qi_decoder g) (replay g)) pg_canon (spine_of ` B) (rn_ix st)" .
  then have log: "tip_logged (ix_Follower (rn_ix st))" by (simp add: ix_holds_def)
  then have "\<forall>u \<in> set (f_updates (ix_Follower (rn_ix st))). Apply u \<noteq> []" by (simp add: tip_logged_def)
  with i log on_update_panics show ?thesis by (simp add: tip_logged_def)
qed

definition ex_cfg :: Follow where
  "ex_cfg = defaultFollow\<lparr>DatabaseURL := ''pg'', Follow.ReorgDepth := 10, APIAddr := '':80''\<rparr>"

definition ex_args :: "string list" where
  "ex_args = [''-db'', ''pg'', ''-depth'', ''10'', ''-api'', '':80'']"

lemma ex_cfg_loads: "LoadFollow ex_os ex_args = Loaded (Inr ex_cfg)"
proof -
  have n: "ParseInt0 ''10'' = Inr 10"
    by (simp add: ParseInt0_def ParseUint0_def base_prefix_def digit_val_def)
  have flags: "flag_Parse (frac ex_os) (map_of follow_flags) Map.empty ex_args =
      Inr [''db'' \<mapsto> StrVal ''pg'', ''depth'' \<mapsto> IntVal 10, ''api'' \<mapsto> StrVal '':80'']"
    by (simp add: ex_args_def follow_flags_def flag_name_def n)
  have "ParseDuration (\<lambda>_ _ _. 0) ''soon'' = Inl ErrDuration"
    by (simp add: ParseDuration_def duration_part_def dec_digit_def)
  then show ?thesis
    using flags
    by (simp add: LoadFollow_def file_layer_def resolvePath_def validate_def visit_flags_def follow_flags_def
        visit_flag_def mergeFollowEnv_def env_case_def ex_os_def defaultFollow_def ex_cfg_def
        Atoi_def res_of_def ParseInt_def ParseUint_def digit_val_def)
qed

text \<open>The process over the empty database, and the loop after the first poll.\<close>

definition ex_process :: "pool run" where
  "ex_process = \<lparr>rn_ix = NewIndexer ex_pool_follower 10, rn_heads = [],
     rn_stream = (if WSURL ex_cfg = [] then StreamEnded else Entering 1), rn_tick = False, rn_canceled = False,
     rn_returned = False, rn_reconnects = 0, rn_sent = [], rn_taken = []\<rparr>"

lemma ex_qi_main:
  "qi_main ex_goquai ex_os (\<lambda>_. Inr ex_pool) ex_fetch ex_range (Inl (Msg [])) (''follow'' # ex_args) =
     Some (RunsPg ex_process True)"
proof -
  have pool: "SetDecoder (qi_decoder ex_goquai) ex_pool = ex_pool" by (simp add: SetDecoder_def ex_pool_def)
  have "service_run ex_goquai (\<lambda>_. Inr ex_pool) ex_cfg = Inr (PgService (NewIndexer ex_pool_follower 10) True)"
    by (simp add: service_run_def openStore_def ex_cfg_def defaultFollow_def pool ex_pool_follower_new wrapE_def)
  moreover have "run_start postgres_ops ex_fetch ex_range (Inl (Msg [])) (WSURL ex_cfg)
      (NewIndexer ex_pool_follower 10) = Some (Inr ex_process)"
    by (simp add: run_start_def catchUpIfBehind_def follower_Tip_def NewIndexer_def ex_pool_follower_def ex_process_def)
  ultimately show ?thesis by (simp add: qi_main_def ex_cfg_loads started_def)
qed

lemma ex_process_polled:
  "\<exists>st. (run_step postgres_ops ex_B undef)\<^sup>*\<^sup>* ex_process st \<and>
     f_updates (ix_Follower (rn_ix st)) = [\<lparr>Rollback = [], Apply = [ex_block1]\<rparr>]"
proof -
  obtain f where f: "Ingest postgres_ops ex_fetch ex_block1 ex_pool_follower = Some (None, f)"
    "f_updates f = [\<lparr>Rollback = [], Apply = [ex_block1]\<rparr>]"
    using ex_pool_ingest by blast
  then obtain ix where ix: "ix_ingest postgres_ops ex_fetch ex_range ex_block1 (NewIndexer ex_pool_follower 10) = Some ix"
    "ix_Follower ix = f"
    by (simp add: ix_ingest_def NewIndexer_def too_deep_def)
  let ?st1 = "ex_process\<lparr>rn_tick := True\<rparr>" and ?st2 = "ex_process\<lparr>rn_tick := False, rn_ix := ix\<rparr>"
  have poll: "loop_poll postgres_ops ex_fetch ex_range (Inr ex_block1) ?st1 = Some ?st2"
    using ix(1) by (simp add: loop_poll_def ex_process_def)
  have latest: "b \<in> ex_B" if "Inr ex_block1 = (Inr b :: err + block)" for b using that by (simp add: ex_B_def)
  have s1: "run_step postgres_ops ex_B undef ex_process ?st1" by (rule run_step.tick)
  have s2: "run_step postgres_ops ex_B undef ?st1 ?st2" by (rule run_step.poll [OF ex_node(1) latest poll])
  from s2 have "(run_step postgres_ops ex_B undef)\<^sup>*\<^sup>* ?st1 ?st2"
    by (rule r_into_rtranclp [of "run_step postgres_ops ex_B undef"])
  with s1 have "(run_step postgres_ops ex_B undef)\<^sup>*\<^sup>* ex_process ?st2" by (rule run_step_trans)
  moreover have "f_updates (ix_Follower (rn_ix ?st2)) = [\<lparr>Rollback = [], Apply = [ex_block1]\<rparr>]"
    using ix(2) f(2) by simp
  ultimately show ?thesis by blast
qed

theorem service_broadcasts_witness:
  "\<exists>(st :: pool run) u h'. (run_step postgres_ops ex_B (\<lambda>_. 0))\<^sup>*\<^sup>* ex_process st \<and>
     u \<in> set (f_updates (ix_Follower (rn_ix st))) \<and> on_update ex_goquai (\<lambda>_. Shows ex_db1) u newHub = Inr h'"
proof -
  obtain st where st: "(run_step postgres_ops ex_B (\<lambda>_. 0))\<^sup>*\<^sup>* ex_process st"
    "f_updates (ix_Follower (rn_ix st)) = [\<lparr>Rollback = [], Apply = [ex_block1]\<rparr>]"
    using ex_process_polled [of "\<lambda>_. 0"] by blast
  have pool: "SetDecoder (qi_decoder ex_goquai) ex_pool = ex_pool" by (simp add: SetDecoder_def ex_pool_def)
  have pg: "pg_inv (qi_decoder ex_goquai) (replay ex_goquai) ex_pool" "pg_canon ex_pool = []"
    using ex_pool_holds pg_holds_canon [OF ex_pool_holds] by (auto simp: pg_inv_def)
  have db: "pg_inv (qi_decoder ex_goquai) (replay ex_goquai) (SetDecoder (qi_decoder ex_goquai) pg) \<and>
      set (pg_canon (SetDecoder (qi_decoder ex_goquai) pg)) \<subseteq> spine_of ` ex_B" if "(\<lambda>_. Inr ex_pool) url = (Inr pg :: err + pool)" for url :: string and pg
    using that pg pool by simp
  have poll: "b \<in> ex_B" if "Inl (Msg []) = (Inr b :: err + block)" for b using that by simp
  have honest: "honest (spine_of ` ex_B)" by (simp add: ex_honest)
  note runs = service_broadcasts [OF ex_qi_main ex_node(1) poll honest db st(1)]
  let ?u = "\<lparr>Rollback = [], Apply = [ex_block1]\<rparr>"
  have "snaps_ok ex_goquai (\<lambda>_. Shows ex_db1)" using ex_db1_known by (simp add: snaps_ok_def answer_ok_def)
  note known = known_BlockEvents [OF this]
  have "on_update ex_goquai (\<lambda>_. Shows ex_db1) ?u newHub \<noteq> Inl e" for e
  proof
    assume "on_update ex_goquai (\<lambda>_. Shows ex_db1) ?u newHub = Inl e"
    with runs st(2) obtain ev where ev: "GetBlockUTXOEvents (\<lambda>_. Shows ex_db1) (Height (last (Apply ?u))) = Inr ev"
      "\<not> known_utxos ex_goquai (ev_Created ev @ ev_Spent ev @ ev_Trimmed ev)"
      by (metis list.set_intros(1))
    from known [OF ev(1)] ev(2) show False by (simp add: known_utxos_append)
  qed
  then obtain h' where "on_update ex_goquai (\<lambda>_. Shows ex_db1) ?u newHub = Inr h'"
    by (metis sum.exhaust)
  with st show ?thesis by (metis list.set_intros(1))
qed

section \<open>Outputs, numbers and JSON\<close>

text \<open>
  C29: The derived outputs are the capped greedy listing. Listed one by one, the outputs of
  \<open>derivedOutputsCapped\<close> are the first so many of the denominations from the highest down, each
  repeated as often as \<open>FindMinDenominations\<close> says; the cap is the gas cap or the index limit,
  whichever is lower; and every group is non-empty and carries the lock height.
\<close>

theorem derivedOutputsCapped_greedy:
  assumes "unat (output_cap g gasLimit) < 2 ^ 63"
    and "\<And>d c. FindMinDenominations g value d = Some c \<Longrightarrow> unat c < 2 ^ 63"
  shows "expand_outputs (derivedOutputsCapped g value lockHeight gasLimit) =
      take (unat (output_cap g gasLimit))
        (greedy_listing (FindMinDenominations g value) (rev [0..<Suc (MaxDenomination g)])) \<and>
    (\<forall>o' \<in> set (derivedOutputsCapped g value lockHeight gasLimit). LockHeight o' = lockHeight \<and> Count o' \<noteq> 0)"
proof -
  have "\<forall>o' \<in> set (derivedOutputsCapped g value lockHeight gasLimit). LockHeight o' = lockHeight \<and> Count o' \<noteq> 0"
    unfolding derivedOutputsCapped_cap using derive_loop_fields [of "[]" lockHeight] by fastforce
  moreover have "expand_outputs (derivedOutputsCapped g value lockHeight gasLimit) =
      take (unat (output_cap g gasLimit))
        (greedy_listing (FindMinDenominations g value) (rev [0..<Suc (MaxDenomination g)]))"
    unfolding derivedOutputsCapped_cap
    by (subst derive_loop_expand [OF _ assms]) (simp_all add: expand_outputs_def del: upt_Suc)
  ultimately show ?thesis by blast
qed

theorem derivedOutputsCapped_greedy_witness:
  "expand_outputs (derivedOutputsCapped ex_goquai 12 9 0) =
     take 65536 (greedy_listing (\<lambda>d. FindMinDenominations ex_goquai 12 d) (rev [0..<Suc 2]))"
proof -
  have cap: "unat (output_cap ex_goquai 0) = 65536" by (simp add: output_cap_def ex_goquai_def)
  have "unat c < 2 ^ 63" if "FindMinDenominations ex_goquai 12 d = Some c" for d c
    using that by (auto simp: ex_goquai_def split: if_splits)
  with derivedOutputsCapped_greedy [of ex_goquai 0 12 9] cap show ?thesis
    by (simp add: ex_goquai_def)
qed

text \<open>
  Hex quantities and byte strings survive the JSON layer. Every \<open>uint64\<close> printed as a quoted hex
  quantity is read back by \<open>HexU64\<close>, and every non-empty byte string by \<open>hexBytes\<close>, whatever its first digit.
\<close>

theorem hex_json_round_trip:
  "HexU64_UnmarshalJSON (JStr (''0x'' @ FormatUint 16 (unat v))) = Inr v \<and>
   hexBytes_UnmarshalJSON (JStr (''0x'' @ hex_EncodeToString bs)) = Inr bs"
  using HexU64_round_trip hexBytes_round_trip by blast

text \<open>
  C35: A block survives its JSON. For both shapes, the parser gives back the hash, parent, number,
  timestamp and exchange rate that were printed, and keeps the raw JSON.
\<close>

theorem ParseBlock_round_trip:
  assumes "h \<noteq> []" "p \<noteq> []"
    and "wo = JObj [(''hash'', JStr h), (''parentHash'', JStr p), (''number'', JStr (hex_quantity n)),
                    (''timestamp'', JStr (hex_quantity ts))]"
    and "hd' = JObj [(''exchangeRate'', JStr (''0x'' @ int_Text 16 r))]"
    and "rpc = JObj [(''hash'', JStr h), (''woHeader'', wo), (''header'', hd')]"
    and "ws = JObj [(''woHeader'', wo), (''header'', hd')]"
  shows "ParseBlock undef (Some rpc) =
      Inr \<lparr>Height = n, Hash = h, ParentHash = p, Timestamp = ts, ExchangeRate = Some r, Raw = Some rpc\<rparr> \<and>
    ParseWSBlock undef (Some ws) =
      Inr \<lparr>Height = n, Hash = h, ParentHash = p, Timestamp = ts, ExchangeRate = Some r, Raw = Some ws\<rparr>"
  using assms
  by (simp add: ParseBlock_def ParseWSBlock_def spine_member_def wsSpine_member_def woHeader_member_def
      header_member_def key_is_def lower_ascii_def zero_spine_json_def hex_quantity_round_trip
      rate_round_trip Let_def)

theorem ParseBlock_round_trip_witness:
  "ParseWSBlock (\<lambda>_. 0) (Some (JObj
      [(''woHeader'', JObj [(''hash'', JStr ''a1''), (''parentHash'', JStr ''a0''),
          (''number'', JStr (hex_quantity 1)), (''timestamp'', JStr (hex_quantity 7))]),
       (''header'', JObj [(''exchangeRate'', JStr (''0x'' @ int_Text 16 255))])])) =
   Inr \<lparr>Height = 1, Hash = ''a1'', ParentHash = ''a0'', Timestamp = 7, ExchangeRate = Some 255,
     Raw = Some (JObj
      [(''woHeader'', JObj [(''hash'', JStr ''a1''), (''parentHash'', JStr ''a0''),
          (''number'', JStr (hex_quantity 1)), (''timestamp'', JStr (hex_quantity 7))]),
       (''header'', JObj [(''exchangeRate'', JStr (''0x'' @ int_Text 16 255))])])\<rparr>"
  using ParseBlock_round_trip [OF _ _ refl refl refl refl, of "''a1''" "''a0''" "\<lambda>_. 0" 1 7 255] by simp

end
